theory Spec2Isabelle
  imports Complex_Main "HOL-Library.Log_Nat" "HOL-Library.Multiset"
begin

section \<open>JavaScript numbers\<close>

text \<open>
  A JavaScript number is an IEEE-754 binary64 value: a finite real, one of the two
  infinities, or NaN. Every arithmetic operation computes the exact result of two finite
  operands and then rounds it; the rounding is a parameter \<open>rnd\<close> of the operations, so
  that the program can be read with the binary64 rounding it runs on (\<open>binary64\<close>) and
  with no rounding at all (\<open>exact\<close>). The rules for the infinities, for NaN and for
  division by zero are those of IEEE-754. The sign of zero is not modelled: the only zero
  divisors of this program are \<open>reviewAge * 2\<close> and \<open>reviews.length\<close>, both \<open>+0\<close>.
\<close>

datatype jsnum = Fin real | PInf | NInf | NaN

type_synonym rounding = "real \<Rightarrow> jsnum"

definition exact :: rounding where
  "exact x = Fin x"

definition pow2 :: "int \<Rightarrow> real" where
  "pow2 e = (if 0 \<le> e then 2 ^ nat e else 1 / 2 ^ nat (- e))"

text \<open>The exponent \<open>k\<close> with \<open>2^k \<le> a < 2^(k+1)\<close>, for \<open>a > 0\<close>.\<close>

definition floorlog2 :: "real \<Rightarrow> int" where
  "floorlog2 a =
     (if 1 \<le> a then bitlen \<lfloor>a\<rfloor> - 1
      else (let k = bitlen \<lfloor>1 / a\<rfloor> - 1 in if a * pow2 k = 1 then - k else - (k + 1)))"

definition roundEven :: "real \<Rightarrow> int" where
  "roundEven y =
     (let f = \<lfloor>y\<rfloor>; d = y - of_int f
      in if d < 1 / 2 then f else if 1 / 2 < d then f + 1 else if even f then f else f + 1)"

text \<open>
  Round to nearest, ties to even, with a 53-bit significand, the least exponent
  \<open>-1074\<close> (subnormal numbers) and overflow to infinity from \<open>2^1024\<close>. The binary64
  numbers around \<open>a\<close> are the multiples of \<open>2^e\<close> for \<open>e = exponent64 a\<close>.
\<close>

definition exponent64 :: "real \<Rightarrow> int" where
  "exponent64 a = max (- 1074) (floorlog2 a - 52)"

definition binary64 :: rounding where
  "binary64 x =
     (if x = 0 then Fin 0
      else (let a = \<bar>x\<bar>;
                e = exponent64 a;
                y = of_int (roundEven (a / pow2 e)) * pow2 e
            in if pow2 1024 \<le> y then (if 0 < x then PInf else NInf)
               else Fin (if 0 < x then y else - y)))"

text \<open>
  The unit roundoff of binary64, half the distance from 1 to the next binary64 number: the
  rounding of a number between 0 and a binary64 number \<open>B \<ge> 1\<close> moves it by at most
  \<open>B * unitRoundoff\<close>.
\<close>

definition unitRoundoff :: real where
  "unitRoundoff = 1 / 2 ^ 53"

fun js_neg :: "jsnum \<Rightarrow> jsnum" where
  "js_neg (Fin x) = Fin (- x)"
| "js_neg PInf = NInf"
| "js_neg NInf = PInf"
| "js_neg NaN = NaN"

fun js_add :: "rounding \<Rightarrow> jsnum \<Rightarrow> jsnum \<Rightarrow> jsnum" where
  "js_add rnd NaN b = NaN"
| "js_add rnd a NaN = NaN"
| "js_add rnd (Fin x) (Fin y) = rnd (x + y)"
| "js_add rnd PInf NInf = NaN"
| "js_add rnd NInf PInf = NaN"
| "js_add rnd PInf b = PInf"
| "js_add rnd NInf b = NInf"
| "js_add rnd (Fin x) b = b"

definition js_sub :: "rounding \<Rightarrow> jsnum \<Rightarrow> jsnum \<Rightarrow> jsnum" where
  "js_sub rnd a b = js_add rnd a (js_neg b)"

text \<open>The sign of a product or quotient with an infinite operand.\<close>

definition js_signed_inf :: "bool \<Rightarrow> jsnum" where
  "js_signed_inf positive = (if positive then PInf else NInf)"

fun js_mul :: "rounding \<Rightarrow> jsnum \<Rightarrow> jsnum \<Rightarrow> jsnum" where
  "js_mul rnd NaN b = NaN"
| "js_mul rnd a NaN = NaN"
| "js_mul rnd (Fin x) (Fin y) = rnd (x * y)"
| "js_mul rnd (Fin x) PInf = (if x = 0 then NaN else js_signed_inf (0 < x))"
| "js_mul rnd (Fin x) NInf = (if x = 0 then NaN else js_signed_inf (x < 0))"
| "js_mul rnd PInf (Fin y) = (if y = 0 then NaN else js_signed_inf (0 < y))"
| "js_mul rnd NInf (Fin y) = (if y = 0 then NaN else js_signed_inf (y < 0))"
| "js_mul rnd PInf PInf = PInf"
| "js_mul rnd PInf NInf = NInf"
| "js_mul rnd NInf PInf = NInf"
| "js_mul rnd NInf NInf = PInf"

fun js_div :: "rounding \<Rightarrow> jsnum \<Rightarrow> jsnum \<Rightarrow> jsnum" where
  "js_div rnd NaN b = NaN"
| "js_div rnd a NaN = NaN"
| "js_div rnd (Fin x) (Fin y) =
     (if y = 0 then (if x = 0 then NaN else js_signed_inf (0 < x)) else rnd (x / y))"
| "js_div rnd (Fin x) b = Fin 0"
| "js_div rnd PInf (Fin y) = js_signed_inf (0 \<le> y)"
| "js_div rnd NInf (Fin y) = js_signed_inf (y < 0)"
| "js_div rnd a b = NaN"

text \<open>Comparisons: every comparison with NaN is false.\<close>

fun js_lt :: "jsnum \<Rightarrow> jsnum \<Rightarrow> bool" where
  "js_lt NaN b = False"
| "js_lt a NaN = False"
| "js_lt (Fin x) (Fin y) = (x < y)"
| "js_lt a PInf = (a \<noteq> PInf)"
| "js_lt NInf b = (b \<noteq> NInf)"
| "js_lt a b = False"

definition js_gt :: "jsnum \<Rightarrow> jsnum \<Rightarrow> bool" where
  "js_gt a b = js_lt b a"

definition js_ge :: "jsnum \<Rightarrow> jsnum \<Rightarrow> bool" where
  "js_ge a b = (js_lt b a \<or> (a = b \<and> a \<noteq> NaN))"

text \<open>The numbers from 0 to positive infinity.\<close>

definition js_nonneg :: "jsnum \<Rightarrow> bool" where
  "js_nonneg v = (case v of Fin y \<Rightarrow> 0 \<le> y | PInf \<Rightarrow> True | NInf \<Rightarrow> False | NaN \<Rightarrow> False)"

text \<open>
  \<open>Math.round\<close>: the nearest integer, a tie going to the larger one. The result is an
  integer next to a binary64 value, so it needs no rounding.
\<close>

fun Math_round :: "jsnum \<Rightarrow> jsnum" where
  "Math_round (Fin x) = Fin (of_int \<lfloor>x + 1 / 2\<rfloor>)"
| "Math_round a = a"

text \<open>An integer of the program as a number (exact below \<open>2^53\<close>).\<close>

definition Num :: "int \<Rightarrow> jsnum" where
  "Num i = Fin (of_int i)"

section \<open>Dates and reviews\<close>

text \<open>
  A \<open>Date\<close> object, as far as the program reads it: the calendar fields of the local
  time zone. \<open>getMonth\<close> counts from 0 (January) to 11 (December). The value of
  \<open>new Date()\<close> is the parameter \<open>today\<close> of the functions below; \<open>createdAt\<close> is
  the date \<open>new Date(review.createdAt)\<close> of a review of the provider's payload.
\<close>

record jsdate =
  getFullYear :: int
  getMonth :: int
  getDate :: int

record review =
  stars :: real
  createdAt :: jsdate

definition MAX_REVIEW_AMOUNT :: int where
  "MAX_REVIEW_AMOUNT = 300"

definition MAX_REVIEW_AGE :: jsnum where
  "MAX_REVIEW_AGE = Fin 36"

definition MAX_REVIEW_STARS :: jsnum where
  "MAX_REVIEW_STARS = Fin 5"

definition getMonthsSinceReviewDate :: "jsdate \<Rightarrow> jsdate \<Rightarrow> int" where
  "getMonthsSinceReviewDate today reviewDate =
     (let months = (getFullYear today - getFullYear reviewDate) * 12;
          months = months - (getMonth reviewDate + 1);
          months = months + getMonth today
      in if months \<le> 0 then 0 else months)"

section \<open>The score\<close>

text \<open>
  The body of the loop of \<open>calculateScore\<close>, one definition for each of its variables,
  as functions of the review's stars and age. \<open>effectiveStars\<close> is the value of
  \<open>reviewStars\<close> after the conditional assignment, and \<open>reviewScore\<close> is the term added
  to \<open>totalTrustScore\<close>.
\<close>

definition ageModifier :: "rounding \<Rightarrow> jsnum \<Rightarrow> jsnum" where
  "ageModifier rnd reviewAge =
     (if js_ge reviewAge MAX_REVIEW_AGE then Fin 0
      else js_sub rnd (Fin 1) (js_div rnd reviewAge MAX_REVIEW_AGE))"

definition ageScore :: "rounding \<Rightarrow> jsnum \<Rightarrow> jsnum \<Rightarrow> jsnum" where
  "ageScore rnd reviewStars reviewAge =
     js_div rnd (js_div rnd reviewStars (js_mul rnd reviewAge (Fin 2))) MAX_REVIEW_STARS"

definition ratingScore :: "rounding \<Rightarrow> jsnum \<Rightarrow> jsnum \<Rightarrow> jsnum" where
  "ratingScore rnd reviewStars reviewAge =
     (let ratingScore = js_add rnd (js_add rnd (js_div rnd reviewStars MAX_REVIEW_STARS)
                                               (ageModifier rnd reviewAge))
                                   (ageScore rnd reviewStars reviewAge)
      in if js_gt ratingScore (Fin 2) then Fin 2 else ratingScore)"

definition effectiveStars :: "rounding \<Rightarrow> jsnum \<Rightarrow> jsnum \<Rightarrow> jsnum" where
  "effectiveStars rnd reviewStars reviewAge =
     (if js_gt reviewAge MAX_REVIEW_AGE
      then js_mul rnd reviewStars (js_div rnd MAX_REVIEW_AGE reviewAge)
      else reviewStars)"

definition reviewScore :: "rounding \<Rightarrow> jsnum \<Rightarrow> jsnum \<Rightarrow> jsnum" where
  "reviewScore rnd reviewStars reviewAge =
     (let ratingScore = ratingScore rnd reviewStars reviewAge;
          reviewStars = effectiveStars rnd reviewStars reviewAge
      in js_add rnd reviewStars (js_div rnd (js_mul rnd reviewStars ratingScore) (Fin 2)))"

text \<open>
  The \<open>for\<close> loop. \<open>totalReviews\<close> is \<open>reviews.length\<close>, so the index stays in range.
\<close>

function calculateScore_loop ::
  "rounding \<Rightarrow> jsdate \<Rightarrow> review list \<Rightarrow> nat \<Rightarrow> nat \<Rightarrow> jsnum \<Rightarrow> jsnum" where
  "calculateScore_loop rnd today rs index totalReviews totalTrustScore =
     (if index < totalReviews
      then (let reviewStars = Fin (stars (rs ! index));
                reviewAge = Num (getMonthsSinceReviewDate today (createdAt (rs ! index)));
                totalTrustScore =
                  js_add rnd totalTrustScore (reviewScore rnd reviewStars reviewAge)
            in calculateScore_loop rnd today rs (index + 1) totalReviews totalTrustScore)
      else totalTrustScore)"
  by pat_completeness auto
termination
  by (relation "measure (\<lambda>(rnd, today, rs, index, totalReviews, acc). totalReviews - index)")
    auto

declare calculateScore_loop.simps [simp del]


section \<open>The TrustScore object and the transport\<close>

text \<open>
  The fields of \<open>this.business\<close> that the program reads and writes, and a log of the
  requests handed to \<open>sendTrustpilotRequest\<close>, in the order they were sent. The log is
  the observable effect of a fetch.
\<close>

datatype error = Error string

datatype request =
  FindBusinessUnit string
| BusinessInfo string
| BusinessReviews string int

text \<open>
  The fields that the program reads of a parsed response body: \<open>id\<close>,
  \<open>numberOfReviews.total\<close> and \<open>reviews\<close>.
\<close>

record body =
  body_id :: string
  numberOfReviews_total :: int
  body_reviews :: "review list"

record TrustScore =
  id' :: string
  totalReviews :: int
  reviews :: "review list"
  requests :: "request list"

text \<open>
  \<open>new TrustScore()\<close>: \<open>this.business\<close> is the empty object; \<open>reviews\<close> is assigned
  before it is read.
\<close>

definition TrustScore_new :: TrustScore where
  "TrustScore_new = \<lparr>id' = [], totalReviews = 0, reviews = [], requests = []\<rparr>"

text \<open>
  The provider and the network are the parameter \<open>api\<close>: what a request is answered
  with, a parsed body (the promise is resolved) or an error (it is rejected). The cases
  in which \<open>sendTrustpilotRequest\<close> itself rejects (a response above
  \<open>MAX_RESPONSE_SIZE\<close>, a body that does not parse, a body with an \<open>errorCode\<close>, a
  request error) are all the outcome \<open>Inl\<close> of \<open>api\<close>. A promise is modelled by its
  outcome, \<open>Inl\<close> for a rejection, together with the object's state when it settles.
\<close>

type_synonym transport = "request \<Rightarrow> error + body"

definition sendTrustpilotRequest ::
  "transport \<Rightarrow> request \<Rightarrow> TrustScore \<Rightarrow> (error + body) \<times> TrustScore" where
  "sendTrustpilotRequest api options this =
     (api options, this\<lparr>requests := requests this @ [options]\<rparr>)"

definition findBusinessUnitId ::
  "transport \<Rightarrow> string \<Rightarrow> TrustScore \<Rightarrow> (error + body) \<times> TrustScore" where
  "findBusinessUnitId api domain this = sendTrustpilotRequest api (FindBusinessUnit domain) this"

definition getBusinessUnitInfo ::
  "transport \<Rightarrow> string \<Rightarrow> TrustScore \<Rightarrow> (error + body) \<times> TrustScore" where
  "getBusinessUnitInfo api domain this =
     (case findBusinessUnitId api domain this of
        (Inl error, this) \<Rightarrow> (Inl error, this)
      | (Inr responseData, this) \<Rightarrow>
          (let this = this\<lparr>id' := body_id responseData\<rparr>
           in sendTrustpilotRequest api (BusinessInfo (id' this)) this))"

definition getBusinessReviews ::
  "transport \<Rightarrow> int \<Rightarrow> TrustScore \<Rightarrow> (error + body) \<times> TrustScore" where
  "getBusinessReviews api page this =
     sendTrustpilotRequest api (BusinessReviews (id' this) page) this"

function runReviewPageRequests ::
  "transport \<Rightarrow> int \<Rightarrow> real \<Rightarrow> TrustScore \<Rightarrow> (error + bool) \<times> TrustScore" where
  "runReviewPageRequests api page pages this =
     (case getBusinessReviews api page this of
        (Inl error, this) \<Rightarrow> (Inl error, this)
      | (Inr data, this) \<Rightarrow>
          (let this = this\<lparr>reviews := reviews this @ body_reviews data\<rparr>
           in if of_int page < pages
              then runReviewPageRequests api (page + 1) pages this
              else (Inr True, this)))"
  by pat_completeness auto
termination
  by (relation "measure (\<lambda>(api, page, pages, this). nat (\<lceil>pages\<rceil> - page))")
    (auto simp: less_ceiling_iff)

declare runReviewPageRequests.simps [simp del]

text \<open>
  The page count. The quotient \<open>totalReviews / 100\<close> is taken exactly: for a count
  below \<open>2^53\<close> the binary64 quotient has the same ceiling.
\<close>

definition pageCount :: "int \<Rightarrow> real" where
  "pageCount totalReviewCount =
     (if totalReviewCount > MAX_REVIEW_AMOUNT then of_int MAX_REVIEW_AMOUNT / 100
      else of_int \<lceil>of_int totalReviewCount / (100 :: real)\<rceil>)"

definition getMaximumBusinessReviews ::
  "transport \<Rightarrow> TrustScore \<Rightarrow> (error + bool) \<times> TrustScore" where
  "getMaximumBusinessReviews api this =
     (let page = 1;
          pages = pageCount (totalReviews this);
          this = this\<lparr>reviews := []\<rparr>
      in runReviewPageRequests api page pages this)"

definition prepareTrustScoreData ::
  "transport \<Rightarrow> string \<Rightarrow> TrustScore \<Rightarrow> (error + bool) \<times> TrustScore" where
  "prepareTrustScoreData api domain this =
     (case getBusinessUnitInfo api domain this of
        (Inl error, this) \<Rightarrow> (Inl error, this)
      | (Inr responseData, this) \<Rightarrow>
          (let this = this\<lparr>totalReviews := numberOfReviews_total responseData\<rparr>
           in case getMaximumBusinessReviews api this of
                (Inl error, this) \<Rightarrow> (Inl error, this)
              | (Inr ok, this) \<Rightarrow> (Inr True, this)))"

definition calculateScore :: "rounding \<Rightarrow> jsdate \<Rightarrow> TrustScore \<Rightarrow> jsnum" where
  "calculateScore rnd today this =
     (let index = 0;
          totalTrustScore = Fin 0;
          totalReviews = length (reviews this);
          totalTrustScore =
            calculateScore_loop rnd today (reviews this) index totalReviews totalTrustScore
      in js_div rnd
           (Math_round (js_mul rnd (js_div rnd totalTrustScore (Num (int totalReviews))) (Fin 10)))
           (Fin 10))"

record response =
  response_id :: string
  response_domain :: string
  trustScore :: jsnum

definition getTrustScore ::
  "rounding \<Rightarrow> jsdate \<Rightarrow> transport \<Rightarrow> string \<Rightarrow> TrustScore \<Rightarrow> (error + response) \<times> TrustScore"
  where
  "getTrustScore rnd today api domain this =
     (case prepareTrustScoreData api domain this of
        (Inl error, this) \<Rightarrow> (Inl error, this)
      | (Inr ok, this) \<Rightarrow>
          (Inr \<lparr>response_id = id' this, response_domain = domain,
                trustScore = calculateScore rnd today this\<rparr>, this))"

text \<open>\<open>exports.handler\<close>: a fresh object for each event; the callback gets the outcome.\<close>

definition handler :: "rounding \<Rightarrow> jsdate \<Rightarrow> transport \<Rightarrow> string \<Rightarrow> error + response" where
  "handler rnd today api domain = fst (getTrustScore rnd today api domain TrustScore_new)"


section \<open>Notions of the specification\<close>

text \<open>
  The number of calendar months from the month of \<open>reviewDate\<close> to the month of
  \<open>today\<close>: 0 for a date in the current month, 1 for a date in the month before.
\<close>

definition calendarMonthsBetween :: "jsdate \<Rightarrow> jsdate \<Rightarrow> int" where
  "calendarMonthsBetween today reviewDate =
     (getFullYear today * 12 + getMonth today)
       - (getFullYear reviewDate * 12 + getMonth reviewDate)"

text \<open>A day to run the examples on: 3 November 2026.\<close>

definition today_2026_11_03 :: jsdate where
  "today_2026_11_03 = \<lparr>getFullYear = 2026, getMonth = 10, getDate = 3\<rparr>"

text \<open>
  What the provider delivers as page \<open>page\<close> of the reviews of a business unit (nothing
  when the request fails), and the last page that \<open>runReviewPageRequests\<close> asks for when
  it starts at \<open>page\<close> and no request fails: the first page index that is not below
  \<open>pages\<close>, and \<open>page\<close> itself when there is none after it.
\<close>

definition pageReviews :: "transport \<Rightarrow> string \<Rightarrow> int \<Rightarrow> review list" where
  "pageReviews api businessUnitId page =
     (case api (BusinessReviews businessUnitId page) of
        Inl error \<Rightarrow> [] | Inr data \<Rightarrow> body_reviews data)"

definition lastPage :: "int \<Rightarrow> real \<Rightarrow> int" where
  "lastPage page pages = max page \<lceil>pages\<rceil>"

text \<open>
  The pages requested for a business unit, in the order of the requests, when no request
  fails.
\<close>

definition fetchedPages :: "TrustScore \<Rightarrow> int list" where
  "fetchedPages this = [1..lastPage 1 (pageCount (totalReviews this))]"

text \<open>
  The score as the specification words it, over the real numbers: the age modifier, the
  age score, the rating score with its clamp at 2, the stars after the discount of an old
  review, the term of one review, rounding to one decimal with a tie going up, and the
  rounded mean. These formulas divide by the age and are meant for an age of at least 1.
\<close>

definition spec_ageModifier :: "real \<Rightarrow> real" where
  "spec_ageModifier a = (if a \<ge> 36 then 0 else 1 - a / 36)"

definition spec_ageScore :: "real \<Rightarrow> real \<Rightarrow> real" where
  "spec_ageScore s a = (s / (a * 2)) / 5"

definition spec_ratingScore :: "real \<Rightarrow> real \<Rightarrow> real" where
  "spec_ratingScore s a = min 2 (s / 5 + spec_ageModifier a + spec_ageScore s a)"

definition spec_effectiveStars :: "real \<Rightarrow> real \<Rightarrow> real" where
  "spec_effectiveStars s a = (if a > 36 then s * (36 / a) else s)"

definition spec_reviewScore :: "real \<Rightarrow> real \<Rightarrow> real" where
  "spec_reviewScore s a =
     spec_effectiveStars s a + (spec_effectiveStars s a * spec_ratingScore s a) / 2"

definition spec_roundTenths :: "real \<Rightarrow> real" where
  "spec_roundTenths x = of_int \<lfloor>x * 10 + 1 / 2\<rfloor> / 10"

text \<open>The age of a review, and the term it adds to \<open>totalTrustScore\<close>.\<close>

definition monthsSince :: "jsdate \<Rightarrow> review \<Rightarrow> int" where
  "monthsSince today r = getMonthsSinceReviewDate today (createdAt r)"

definition spec_score :: "jsdate \<Rightarrow> review list \<Rightarrow> real" where
  "spec_score today rs =
     spec_roundTenths
       ((\<Sum>r\<leftarrow>rs. spec_reviewScore (stars r) (of_int (monthsSince today r))) / real (length rs))"

definition contribution :: "rounding \<Rightarrow> jsdate \<Rightarrow> review \<Rightarrow> jsnum" where
  "contribution rnd today r = reviewScore rnd (Fin (stars r)) (Num (monthsSince today r))"

text \<open>
  The term of a review as a real number, for a review of any age: the specification's
  \<open>reviewScore\<close> for an age of at least 1, and \<open>2 * stars\<close> for a review of age 0,
  where the age score of the specification's formula is infinite and its rating score is
  clamped to 2. The mean of these terms over a review sequence. \<open>tieMargin n\<close> bounds
  the distance by which the roundings of binary64 arithmetic move ten times the mean of
  \<open>n\<close> reviews, the number that \<open>Math.round\<close> is applied to.
\<close>

definition reviewTerm :: "jsdate \<Rightarrow> review \<Rightarrow> real" where
  "reviewTerm today r =
     (if monthsSince today r = 0 then 2 * stars r
      else spec_reviewScore (stars r) (of_int (monthsSince today r)))"

definition meanReviewTerm :: "jsdate \<Rightarrow> review list \<Rightarrow> real" where
  "meanReviewTerm today rs = (\<Sum>r\<leftarrow>rs. reviewTerm today r) / real (length rs)"

definition tieMargin :: "nat \<Rightarrow> real" where
  "tieMargin n = (100 * real n + 880) * unitRoundoff"

section \<open>Example providers and reviews\<close>

text \<open>
  A provider that knows every domain as the business unit \<open>bu-1\<close>, reports
  \<open>totalReviewCount\<close> reviews for it, and answers the request for a page of reviews as
  \<open>pages\<close> says.
\<close>

definition provider :: "int \<Rightarrow> (int \<Rightarrow> error + review list) \<Rightarrow> transport" where
  "provider totalReviewCount pages options =
     (case options of
        FindBusinessUnit domain \<Rightarrow>
          Inr \<lparr>body_id = ''bu-1'', numberOfReviews_total = 0, body_reviews = []\<rparr>
      | BusinessInfo businessUnitId \<Rightarrow>
          Inr \<lparr>body_id = businessUnitId, numberOfReviews_total = totalReviewCount,
               body_reviews = []\<rparr>
      | BusinessReviews businessUnitId page \<Rightarrow>
          (case pages page of
             Inl error \<Rightarrow> Inl error
           | Inr rs \<Rightarrow>
               Inr \<lparr>body_id = businessUnitId, numberOfReviews_total = totalReviewCount,
                    body_reviews = rs\<rparr>))"

text \<open>
  Reviews with 1, 2, 3 and 5 stars, of age 3, 6, 1 and 1 on 3 November 2026.
\<close>

definition review_1_3 :: review where
  "review_1_3 = \<lparr>stars = 1, createdAt = \<lparr>getFullYear = 2026, getMonth = 6, getDate = 15\<rparr>\<rparr>"

definition review_2_6 :: review where
  "review_2_6 = \<lparr>stars = 2, createdAt = \<lparr>getFullYear = 2026, getMonth = 3, getDate = 15\<rparr>\<rparr>"

definition review_3_1 :: review where
  "review_3_1 = \<lparr>stars = 3, createdAt = \<lparr>getFullYear = 2026, getMonth = 8, getDate = 15\<rparr>\<rparr>"

definition review_5_1 :: review where
  "review_5_1 = \<lparr>stars = 5, createdAt = \<lparr>getFullYear = 2026, getMonth = 8, getDate = 15\<rparr>\<rparr>"

text \<open>A provider whose page \<open>p\<close> holds one review, with \<open>p\<close> stars.\<close>

definition onePerPage :: "int \<Rightarrow> error + review list" where
  "onePerPage page =
     Inr [\<lparr>stars = of_int page, createdAt = \<lparr>getFullYear = 2026, getMonth = 8, getDate = 15\<rparr>\<rparr>]"

text \<open>A provider that delivers the same review on every page.\<close>

definition samePage :: "int \<Rightarrow> error + review list" where
  "samePage page = Inr [review_3_1]"

text \<open>A provider whose second page fails.\<close>

definition secondPageFails :: "int \<Rightarrow> error + review list" where
  "secondPageFails page =
     (if page = 2 then Inl (Error ''Request entity too large.'') else onePerPage page)"

text \<open>A provider without reviews.\<close>

definition noReviews :: "int \<Rightarrow> error + review list" where
  "noReviews page = Inr []"

text \<open>Reviews with 4 and 3 stars, of age 36 and 72 on 3 November 2026.\<close>

definition review_4_36 :: review where
  "review_4_36 = \<lparr>stars = 4, createdAt = \<lparr>getFullYear = 2023, getMonth = 9, getDate = 15\<rparr>\<rparr>"

definition review_3_72 :: review where
  "review_3_72 = \<lparr>stars = 3, createdAt = \<lparr>getFullYear = 2020, getMonth = 9, getDate = 15\<rparr>\<rparr>"

text \<open>Reviews with 5 and 0 stars, dated in the current month on 3 November 2026 (age 0).\<close>

definition review_5_0 :: review where
  "review_5_0 = \<lparr>stars = 5, createdAt = \<lparr>getFullYear = 2026, getMonth = 10, getDate = 1\<rparr>\<rparr>"

definition review_0_0 :: review where
  "review_0_0 = \<lparr>stars = 0, createdAt = \<lparr>getFullYear = 2026, getMonth = 10, getDate = 2\<rparr>\<rparr>"

section \<open>The age of a review\<close>

text \<open>
  C5, as stated, fails: a review dated in the month before the current one has age 0, not
  1. For today = 3 November 2026 and a review of 28 October 2026 the function computes
  \<open>0 * 12 - (9 + 1) + 10 = 0\<close>.
\<close>

theorem C5_last_month_counterexample:
  "calendarMonthsBetween today_2026_11_03 \<lparr>getFullYear = 2026, getMonth = 9, getDate = 28\<rparr> = 1
   \<and> getMonthsSinceReviewDate today_2026_11_03
         \<lparr>getFullYear = 2026, getMonth = 9, getDate = 28\<rparr> \<noteq> 1"
  by (simp add: calendarMonthsBetween_def getMonthsSinceReviewDate_def today_2026_11_03_def)

text \<open>
  C5, amended: the age is \<open>(yearsDiff * 12) - (reviewMonth + 1) + currentMonth\<close>, clamped
  to a minimum of 0, which is one less than the number of calendar months between the two
  dates. A review dated in the current month or in the month before it has age 0, a review
  dated two calendar months back has age 1, and the day of the month of either date plays
  no role.
\<close>

theorem C5_months_since:
  "getMonthsSinceReviewDate today reviewDate =
     max 0 ((getFullYear today - getFullYear reviewDate) * 12 - (getMonth reviewDate + 1)
            + getMonth today)
   \<and> getMonthsSinceReviewDate today reviewDate = max 0 (calendarMonthsBetween today reviewDate - 1)
   \<and> (calendarMonthsBetween today reviewDate = 0 \<longrightarrow> getMonthsSinceReviewDate today reviewDate = 0)
   \<and> (calendarMonthsBetween today reviewDate = 1 \<longrightarrow> getMonthsSinceReviewDate today reviewDate = 0)
   \<and> (calendarMonthsBetween today reviewDate = 2 \<longrightarrow> getMonthsSinceReviewDate today reviewDate = 1)
   \<and> getMonthsSinceReviewDate (today\<lparr>getDate := day\<rparr>) (reviewDate\<lparr>getDate := day'\<rparr>)
       = getMonthsSinceReviewDate today reviewDate"
  by (auto simp: getMonthsSinceReviewDate_def calendarMonthsBetween_def Let_def)

theorem C5_months_since_witness:
  "getMonthsSinceReviewDate today_2026_11_03 \<lparr>getFullYear = 2026, getMonth = 10, getDate = 1\<rparr> = 0
   \<and> getMonthsSinceReviewDate today_2026_11_03 \<lparr>getFullYear = 2026, getMonth = 9, getDate = 28\<rparr> = 0
   \<and> getMonthsSinceReviewDate today_2026_11_03 \<lparr>getFullYear = 2026, getMonth = 8, getDate = 28\<rparr> = 1"
  using C5_months_since [of today_2026_11_03 "\<lparr>getFullYear = 2026, getMonth = 10, getDate = 1\<rparr>"]
    C5_months_since [of today_2026_11_03 "\<lparr>getFullYear = 2026, getMonth = 9, getDate = 28\<rparr>"]
    C5_months_since [of today_2026_11_03 "\<lparr>getFullYear = 2026, getMonth = 8, getDate = 28\<rparr>"]
  by (simp add: calendarMonthsBetween_def today_2026_11_03_def)


section \<open>The pagination controller\<close>

text \<open>
  One step of \<open>runReviewPageRequests\<close>, for a request that fails and for one that
  succeeds, and the pages the recursion walks through.
\<close>

lemma lastPage_step:
  assumes "of_int page < pages"
  shows "lastPage (page + 1) pages = lastPage page pages"
proof -
  have "page < \<lceil>pages\<rceil>" using assms by (simp add: less_ceiling_iff)
  then show ?thesis by (simp add: lastPage_def)
qed

lemma lastPage_stop:
  assumes "\<not> of_int page < pages"
  shows "lastPage page pages = page"
proof -
  have "\<lceil>pages\<rceil> \<le> page" using assms by (simp add: ceiling_le_iff)
  then show ?thesis by (simp add: lastPage_def)
qed

lemma lastPage_gt:
  assumes "of_int page < pages"
  shows "page < lastPage page pages"
proof -
  have "page < \<lceil>pages\<rceil>" using assms by (simp add: less_ceiling_iff)
  then show ?thesis by (simp add: lastPage_def)
qed

lemma lastPage_ge: "page \<le> lastPage page pages"
  by (simp add: lastPage_def)

lemma run_unfold_Inl:
  "api (BusinessReviews (id' this) page) = Inl e \<Longrightarrow>
   runReviewPageRequests api page pages this =
     (Inl e, this\<lparr>requests := requests this @ [BusinessReviews (id' this) page]\<rparr>)"
  by (subst runReviewPageRequests.simps) (simp add: getBusinessReviews_def sendTrustpilotRequest_def)

lemma run_unfold_Inr:
  "api (BusinessReviews (id' this) page) = Inr data \<Longrightarrow>
   runReviewPageRequests api page pages this =
     (let this' = this\<lparr>requests := requests this @ [BusinessReviews (id' this) page],
                        reviews := reviews this @ body_reviews data\<rparr>
      in if of_int page < pages then runReviewPageRequests api (page + 1) pages this'
         else (Inr True, this'))"
  by (subst runReviewPageRequests.simps)
    (simp add: getBusinessReviews_def sendTrustpilotRequest_def Let_def)

lemma run_ok:
  assumes "\<forall>p. page \<le> p \<and> p \<le> lastPage page pages \<longrightarrow> \<not> isl (api (BusinessReviews (id' this) p))"
  shows "runReviewPageRequests api page pages this =
     (Inr True, this\<lparr>reviews := reviews this
                      @ concat (map (pageReviews api (id' this)) [page..lastPage page pages]),
                    requests := requests this
                      @ map (BusinessReviews (id' this)) [page..lastPage page pages]\<rparr>)"
  using assms
proof (induction api page pages this rule: runReviewPageRequests.induct)
  case (1 api page pages this)
  from "1.prems" lastPage_ge [of page pages]
  obtain data where data: "api (BusinessReviews (id' this) page) = Inr data"
    by (cases "api (BusinessReviews (id' this) page)") auto
  note unf = run_unfold_Inr [where api = api and this = this and page = page and pages = pages,
      OF data]
  have pr: "pageReviews api (id' this) page = body_reviews data"
    by (simp add: pageReviews_def data)
  let ?this' = "this\<lparr>requests := requests this @ [BusinessReviews (id' this) page],
                       reviews := reviews this @ body_reviews data\<rparr>"
  show ?case
  proof (cases "of_int page < pages")
    case True
    have g: "(Inr data, this\<lparr>requests := requests this @ [BusinessReviews (id' this) page]\<rparr>)
        = getBusinessReviews api page this"
      by (simp add: getBusinessReviews_def sendTrustpilotRequest_def data)
    have ih: "runReviewPageRequests api (page + 1) pages ?this' =
      (Inr True, ?this'\<lparr>reviews := reviews ?this'
                      @ concat (map (pageReviews api (id' ?this')) [page + 1..lastPage (page + 1) pages]),
                    requests := requests ?this'
                      @ map (BusinessReviews (id' ?this')) [page + 1..lastPage (page + 1) pages]\<rparr>)"
      using "1.IH" [OF g refl refl True] "1.prems" by (simp add: lastPage_step [OF True])
    have up: "[page..lastPage page pages] = page # [page + 1..lastPage page pages]"
      using lastPage_gt [OF True] by (simp add: upto_rec1)
    show ?thesis
      by (simp add: unf True ih up lastPage_step [OF True]
          pr)
  next
    case False
    then show ?thesis
      by (simp add: unf lastPage_stop pr)
  qed
qed


lemma run_fail:
  assumes "page \<le> k" "k \<le> lastPage page pages"
    and "\<forall>p. page \<le> p \<and> p < k \<longrightarrow> \<not> isl (api (BusinessReviews (id' this) p))"
    and "api (BusinessReviews (id' this) k) = Inl e"
  shows "runReviewPageRequests api page pages this =
     (Inl e, this\<lparr>reviews := reviews this
                      @ concat (map (pageReviews api (id' this)) [page..k - 1]),
                   requests := requests this @ map (BusinessReviews (id' this)) [page..k]\<rparr>)"
  using assms
proof (induction api page pages this rule: runReviewPageRequests.induct)
  case (1 api page pages this)
  show ?case
  proof (cases "k = page")
    case True
    with "1.prems"(4) show ?thesis
      by (simp add: run_unfold_Inl [where api = api and this = this and page = page])
  next
    case False
    with "1.prems" have lt: "page < k" by simp
    with "1.prems"(3) obtain data where data: "api (BusinessReviews (id' this) page) = Inr data"
      by (cases "api (BusinessReviews (id' this) page)") auto
    note unf = run_unfold_Inr [where api = api and this = this and page = page and pages = pages,
        OF data]
    have pr: "pageReviews api (id' this) page = body_reviews data"
      by (simp add: pageReviews_def data)
    have more: "of_int page < pages"
      using lt "1.prems"(2) lastPage_stop [of page pages] by auto
    let ?this' = "this\<lparr>requests := requests this @ [BusinessReviews (id' this) page],
                         reviews := reviews this @ body_reviews data\<rparr>"
    have g: "(Inr data, this\<lparr>requests := requests this @ [BusinessReviews (id' this) page]\<rparr>)
        = getBusinessReviews api page this"
      by (simp add: getBusinessReviews_def sendTrustpilotRequest_def data)
    have ih: "runReviewPageRequests api (page + 1) pages ?this' =
      (Inl e, ?this'\<lparr>reviews := reviews ?this'
                      @ concat (map (pageReviews api (id' ?this')) [page + 1..k - 1]),
                    requests := requests ?this'
                      @ map (BusinessReviews (id' ?this')) [page + 1..k]\<rparr>)"
      using "1.IH" [OF g refl refl more] "1.prems" lt by (simp add: lastPage_step [OF more])
    have up: "[page..k] = page # [page + 1..k]" "[page..k - 1] = page # [page + 1..k - 1]"
      using lt by (simp_all add: upto_rec1)
    show ?thesis
      by (simp add: unf more ih up pr)
  qed
qed

lemma run_Inr:
  assumes "fst (runReviewPageRequests api page pages this) = Inr ok"
    and "page \<le> p" "p \<le> lastPage page pages"
  shows "\<not> isl (api (BusinessReviews (id' this) p))"
  using assms
proof (induction api page pages this rule: runReviewPageRequests.induct)
  case (1 api page pages this)
  obtain data where data: "api (BusinessReviews (id' this) page) = Inr data"
  proof (cases "api (BusinessReviews (id' this) page)")
    case (Inl e)
    with "1.prems"(1) show ?thesis
      by (simp add: run_unfold_Inl [where api = api and this = this and page = page])
  next
    case (Inr data)
    then show ?thesis by (rule that)
  qed
  note unf = run_unfold_Inr [where api = api and this = this and page = page and pages = pages,
      OF data]
  show ?case
  proof (cases "p = page")
    case True
    with data show ?thesis by simp
  next
    case False
    with "1.prems" have lt: "page < p" by simp
    have more: "of_int page < pages"
      using lt "1.prems"(3) lastPage_stop [of page pages] by auto
    have g: "(Inr data, this\<lparr>requests := requests this @ [BusinessReviews (id' this) page]\<rparr>)
        = getBusinessReviews api page this"
      by (simp add: getBusinessReviews_def sendTrustpilotRequest_def data)
    show ?thesis
      using "1.IH" [OF g refl refl more] "1.prems" lt
      by (simp add: unf more lastPage_step [OF more])
  qed
qed

text \<open>The state after a run that resolved.\<close>

lemma run_resolved:
  assumes "fst (runReviewPageRequests api page pages this) = Inr ok"
  shows "runReviewPageRequests api page pages this =
     (Inr True, this\<lparr>reviews := reviews this
                      @ concat (map (pageReviews api (id' this)) [page..lastPage page pages]),
                    requests := requests this
                      @ map (BusinessReviews (id' this)) [page..lastPage page pages]\<rparr>)"
  using run_Inr [OF assms] by (intro run_ok) blast

lemma getMaximumBusinessReviews_run:
  "getMaximumBusinessReviews api this =
     runReviewPageRequests api 1 (pageCount (totalReviews this)) (this\<lparr>reviews := []\<rparr>)"
  by (simp add: getMaximumBusinessReviews_def)

lemma pageCount_integral: "of_int \<lceil>pageCount n\<rceil> = pageCount n"
  by (simp add: pageCount_def MAX_REVIEW_AMOUNT_def)

lemma lastPage_pageCount: "1 \<le> pageCount n \<Longrightarrow> lastPage 1 (pageCount n) = \<lceil>pageCount n\<rceil>"
  by (simp add: lastPage_def max_def; linarith)

lemma getMaximumBusinessReviews_ok:
  assumes pages: "1 \<le> pageCount (totalReviews this)"
    and ok: "\<forall>p. 1 \<le> p \<and> of_int p \<le> pageCount (totalReviews this)
                 \<longrightarrow> \<not> isl (api (BusinessReviews (id' this) p))"
  shows "getMaximumBusinessReviews api this =
        (Inr True,
         this\<lparr>reviews := concat (map (pageReviews api (id' this))
                                     [1..\<lceil>pageCount (totalReviews this)\<rceil>]),
              requests := requests this
                @ map (BusinessReviews (id' this)) [1..\<lceil>pageCount (totalReviews this)\<rceil>]\<rparr>)"
proof -
  let ?n = "\<lceil>pageCount (totalReviews this)\<rceil>"
  have last: "lastPage 1 (pageCount (totalReviews this)) = ?n"
    using pages by (rule lastPage_pageCount)
  have "of_int p \<le> pageCount (totalReviews this)" if "p \<le> ?n" for p
  proof -
    from that have "real_of_int p \<le> of_int ?n" by simp
    then show ?thesis by (simp add: pageCount_integral)
  qed
  with ok have "\<forall>p. 1 \<le> p \<and> p \<le> lastPage 1 (pageCount (totalReviews this))
          \<longrightarrow> \<not> isl (api (BusinessReviews (id' (this\<lparr>reviews := []\<rparr>)) p))"
    by (simp add: last)
  from run_ok [OF this] show ?thesis
    by (simp add: getMaximumBusinessReviews_run last)
qed

text \<open>
  C2: \<open>getMaximumBusinessReviews\<close> computes the page count from \<open>totalReviews\<close> before
  the first request and hands it unchanged to the recursion. For a count between 0 and
  300 it is \<open>ceil(totalReviews / 100)\<close>, above 300 it is \<open>300 / 100 = 3\<close>; 50 reviews
  give 1 page, 250 give 3 and 10000 give 3. When the page count is at least 1 and no
  request fails, the promise resolves after the requests for the pages 1, 2, ... up to the
  page count, in this order and nothing else, so that the number of requests is the page
  count.
\<close>

theorem C2_page_count:
  "(0 \<le> n \<and> n \<le> 300 \<longrightarrow> pageCount n = of_int \<lceil>of_int n / (100 :: real)\<rceil>)
   \<and> (300 < n \<longrightarrow> pageCount n = 300 / 100 \<and> pageCount n = 3)
   \<and> pageCount 50 = 1 \<and> pageCount 250 = 3 \<and> pageCount 10000 = 3
   \<and> getMaximumBusinessReviews api this =
       runReviewPageRequests api 1 (pageCount (totalReviews this)) (this\<lparr>reviews := []\<rparr>)
   \<and> (1 \<le> pageCount (totalReviews this)
        \<and> (\<forall>p. 1 \<le> p \<and> of_int p \<le> pageCount (totalReviews this)
               \<longrightarrow> \<not> isl (api (BusinessReviews (id' this) p)))
       \<longrightarrow> fst (getMaximumBusinessReviews api this) = Inr True
           \<and> requests (snd (getMaximumBusinessReviews api this)) =
               requests this
                 @ map (BusinessReviews (id' this)) [1..\<lceil>pageCount (totalReviews this)\<rceil>]
           \<and> real (length [1..\<lceil>pageCount (totalReviews this)\<rceil>])
               = pageCount (totalReviews this))"
proof -
  have vals: "pageCount 50 = 1 \<and> pageCount 250 = 3 \<and> pageCount 10000 = 3"
    by (simp add: pageCount_def MAX_REVIEW_AMOUNT_def ceiling_eq_iff)
  have formula: "(0 \<le> n \<and> n \<le> 300 \<longrightarrow> pageCount n = of_int \<lceil>of_int n / (100 :: real)\<rceil>)
      \<and> (300 < n \<longrightarrow> pageCount n = 300 / 100 \<and> pageCount n = 3)"
    by (simp add: pageCount_def MAX_REVIEW_AMOUNT_def)
  have count: "1 \<le> pageCount (totalReviews this) \<Longrightarrow>
      real (length [1..\<lceil>pageCount (totalReviews this)\<rceil>]) = pageCount (totalReviews this)"
  proof -
    assume "1 \<le> pageCount (totalReviews this)"
    then have "1 \<le> \<lceil>pageCount (totalReviews this)\<rceil>" by linarith
    then have "real (length [1..\<lceil>pageCount (totalReviews this)\<rceil>])
        = of_int \<lceil>pageCount (totalReviews this)\<rceil>" by simp
    then show ?thesis by (simp add: pageCount_integral)
  qed
  from vals formula count getMaximumBusinessReviews_ok [of this api]
    getMaximumBusinessReviews_run [of api this]
  show ?thesis by simp
qed

theorem C2_page_count_witness:
  "requests (snd (getMaximumBusinessReviews (provider 250 onePerPage)
      (TrustScore_new\<lparr>id' := ''bu-1'', totalReviews := 250\<rparr>))) =
     [BusinessReviews ''bu-1'' 1, BusinessReviews ''bu-1'' 2, BusinessReviews ''bu-1'' 3]"
proof -
  have pages: "pageCount 250 = 3" by (simp add: pageCount_def MAX_REVIEW_AMOUNT_def)
  have ok: "\<not> isl (provider 250 onePerPage (BusinessReviews b p))" for b p
    by (simp add: provider_def onePerPage_def)
  from C2_page_count [of 250 "provider 250 onePerPage"
      "TrustScore_new\<lparr>id' := ''bu-1'', totalReviews := 250\<rparr>"]
  show ?thesis
    by (auto simp: pages ok TrustScore_new_def upto.simps)
qed

text \<open>
  C4: for \<open>totalReviews = 0\<close> the page count is 0, and the controller still sends the
  request for page 1, exactly this one: the comparison \<open>page < pages\<close> is made in the
  callback of the first request only. The promise then settles as that request did.
\<close>

theorem C4_zero_pages_one_fetch:
  "pageCount 0 = 0
   \<and> requests (snd (getMaximumBusinessReviews api (this\<lparr>totalReviews := 0\<rparr>))) =
       requests this @ [BusinessReviews (id' this) 1]
   \<and> fst (getMaximumBusinessReviews api (this\<lparr>totalReviews := 0\<rparr>)) =
       (case api (BusinessReviews (id' this) 1) of Inl error \<Rightarrow> Inl error | Inr data \<Rightarrow> Inr True)"
proof -
  have zero: "pageCount 0 = 0" by (simp add: pageCount_def MAX_REVIEW_AMOUNT_def)
  let ?t = "this\<lparr>totalReviews := 0, reviews := []\<rparr>"
  show ?thesis
  proof (cases "api (BusinessReviews (id' this) 1)")
    case (Inl e)
    then have "api (BusinessReviews (id' ?t) 1) = Inl e" by simp
    from run_unfold_Inl [where api = api and this = ?t and page = 1, OF this] Inl zero
    show ?thesis by (simp add: getMaximumBusinessReviews_run)
  next
    case (Inr data)
    then have "api (BusinessReviews (id' ?t) 1) = Inr data" by simp
    from run_unfold_Inr [where api = api and this = ?t and page = 1 and pages = 0, OF this]
      Inr zero
    show ?thesis by (simp add: getMaximumBusinessReviews_run)
  qed
qed

lemma prepareTrustScoreData_found:
  assumes "api (FindBusinessUnit domain) = Inr found"
    and "api (BusinessInfo (body_id found)) = Inr info"
  shows "prepareTrustScoreData api domain this =
     (case getMaximumBusinessReviews api
             (this\<lparr>id' := body_id found,
                   requests := requests this
                     @ [FindBusinessUnit domain, BusinessInfo (body_id found)],
                   totalReviews := numberOfReviews_total info\<rparr>) of
        (Inl error, this) \<Rightarrow> (Inl error, this)
      | (Inr ok, this) \<Rightarrow> (Inr True, this))"
  using assms
  by (simp add: prepareTrustScoreData_def getBusinessUnitInfo_def findBusinessUnitId_def
      sendTrustpilotRequest_def Let_def)

text \<open>
  C3: when the business unit is found and the request for page \<open>k\<close> is the first one to
  fail, with the error \<open>e\<close>, then the pagination controller, \<open>prepareTrustScoreData\<close>,
  \<open>getTrustScore\<close> and the handler all end with exactly \<open>e\<close>: the caller gets the error
  and no response object, hence no score computed from the pages fetched so far. The
  requests sent are those for the business unit and for the pages 1 to \<open>k\<close>: no page
  after \<open>k\<close> is asked for.
\<close>

theorem C3_failed_fetch_aborts:
  assumes "api (FindBusinessUnit domain) = Inr found"
    and "api (BusinessInfo (body_id found)) = Inr info"
    and "1 \<le> k" "k \<le> lastPage 1 (pageCount (numberOfReviews_total info))"
    and "\<forall>p. 1 \<le> p \<and> p < k \<longrightarrow> \<not> isl (api (BusinessReviews (body_id found) p))"
    and "api (BusinessReviews (body_id found) k) = Inl e"
  shows "fst (getMaximumBusinessReviews api
            (this\<lparr>id' := body_id found, totalReviews := numberOfReviews_total info\<rparr>)) = Inl e
     \<and> fst (prepareTrustScoreData api domain this) = Inl e
     \<and> fst (getTrustScore rnd today api domain this) = Inl e
     \<and> handler rnd today api domain = Inl e
     \<and> requests (snd (getTrustScore rnd today api domain this)) =
         requests this @ [FindBusinessUnit domain, BusinessInfo (body_id found)]
           @ map (BusinessReviews (body_id found)) [1..k]"
proof -
  have run: "getMaximumBusinessReviews api that =
      (Inl e, that\<lparr>reviews := concat (map (pageReviews api (body_id found)) [1..k - 1]),
                   requests := requests that @ map (BusinessReviews (body_id found)) [1..k]\<rparr>)"
    if "id' that = body_id found" "totalReviews that = numberOfReviews_total info" for that
    using run_fail [where api = api and page = 1 and k = k and e = e
        and pages = "pageCount (numberOfReviews_total info)" and this = "that\<lparr>reviews := []\<rparr>"]
      assms(3-6) that
    by (simp add: getMaximumBusinessReviews_run)
  have prep: "prepareTrustScoreData api domain that =
      (Inl e, that\<lparr>id' := body_id found, totalReviews := numberOfReviews_total info,
                   reviews := concat (map (pageReviews api (body_id found)) [1..k - 1]),
                   requests := requests that
                     @ [FindBusinessUnit domain, BusinessInfo (body_id found)]
                     @ map (BusinessReviews (body_id found)) [1..k]\<rparr>)" for that
    by (simp add: prepareTrustScoreData_found [OF assms(1,2)] run)
  show ?thesis
    by (simp add: run prep getTrustScore_def handler_def)
qed

theorem C3_failed_fetch_aborts_witness:
  "handler exact today_2026_11_03 (provider 250 secondPageFails) ''example.com''
     = Inl (Error ''Request entity too large.'')
   \<and> requests (snd (getTrustScore exact today_2026_11_03 (provider 250 secondPageFails)
        ''example.com'' TrustScore_new)) =
       [FindBusinessUnit ''example.com'', BusinessInfo ''bu-1'',
        BusinessReviews ''bu-1'' 1, BusinessReviews ''bu-1'' 2]"
proof -
  have pages: "lastPage 1 (pageCount 250) = 3"
    by (simp add: pageCount_def MAX_REVIEW_AMOUNT_def lastPage_def)
  from C3_failed_fetch_aborts [where api = "provider 250 secondPageFails"
      and domain = "''example.com''" and k = 2 and e = "Error ''Request entity too large.''"
      and found = "\<lparr>body_id = ''bu-1'', numberOfReviews_total = 0, body_reviews = []\<rparr>"
      and info = "\<lparr>body_id = ''bu-1'', numberOfReviews_total = 250, body_reviews = []\<rparr>"
      and this = TrustScore_new and rnd = exact and today = today_2026_11_03]
  show ?thesis
    by (simp add: pages provider_def secondPageFails_def onePerPage_def TrustScore_new_def
        upto.simps)
qed

lemma distinct_concat_map:
  assumes "distinct ps" "\<forall>p\<in>set ps. distinct (f p)"
    and "\<forall>p\<in>set ps. \<forall>q\<in>set ps. p \<noteq> q \<longrightarrow> set (f p) \<inter> set (f q) = {}"
  shows "distinct (concat (map f ps))"
  using assms by (induction ps) auto

text \<open>
  C7, as stated, fails: the controller appends what the provider delivers and compares no
  reviews, so a review that the provider delivers on two pages is in the sequence twice.
  Here the provider reports 200 reviews and delivers the same review as page 1 and as
  page 2 (as happens when a new review arrives between the two requests and shifts the
  pages).
\<close>

theorem C7_duplicate_counterexample:
  "fst (getMaximumBusinessReviews (provider 200 samePage)
         (TrustScore_new\<lparr>id' := ''bu-1'', totalReviews := 200\<rparr>)) = Inr True
   \<and> reviews (snd (getMaximumBusinessReviews (provider 200 samePage)
         (TrustScore_new\<lparr>id' := ''bu-1'', totalReviews := 200\<rparr>))) = [review_3_1, review_3_1]
   \<and> \<not> distinct (reviews (snd (getMaximumBusinessReviews (provider 200 samePage)
         (TrustScore_new\<lparr>id' := ''bu-1'', totalReviews := 200\<rparr>))))"
proof -
  have pages: "pageCount 200 = 2" by (simp add: pageCount_def MAX_REVIEW_AMOUNT_def)
  have ok: "\<not> isl (provider 200 samePage (BusinessReviews b p))" for b p
    by (simp add: provider_def samePage_def)
  have page: "pageReviews (provider 200 samePage) b p = [review_3_1]" for b p
    by (simp add: pageReviews_def provider_def samePage_def)
  from getMaximumBusinessReviews_ok [of "TrustScore_new\<lparr>id' := ''bu-1'', totalReviews := 200\<rparr>"
      "provider 200 samePage"]
  show ?thesis
    by (simp add: pages ok page upto.simps)
qed

text \<open>
  C7, amended: after a retrieval that resolved, every page was requested exactly once, in
  increasing order; the accumulated sequence is the concatenation of the delivered pages
  in that order, so its length is the sum of their sizes and each delivered review is in
  it once for each time it was delivered. It holds no review twice whenever the provider
  delivered none twice, that is, when no page repeats a review and no two pages share one.
\<close>

theorem C7_accumulated_reviews:
  assumes "fst (getMaximumBusinessReviews api this) = Inr ok"
  shows "requests (snd (getMaximumBusinessReviews api this)) =
           requests this @ map (BusinessReviews (id' this)) (fetchedPages this)
     \<and> distinct (fetchedPages this)
     \<and> reviews (snd (getMaximumBusinessReviews api this)) =
           concat (map (pageReviews api (id' this)) (fetchedPages this))
     \<and> length (reviews (snd (getMaximumBusinessReviews api this))) =
           sum_list (map (\<lambda>page. length (pageReviews api (id' this) page)) (fetchedPages this))
     \<and> ((\<forall>p\<in>set (fetchedPages this). distinct (pageReviews api (id' this) p))
          \<and> (\<forall>p\<in>set (fetchedPages this). \<forall>q\<in>set (fetchedPages this). p \<noteq> q \<longrightarrow>
                set (pageReviews api (id' this) p) \<inter> set (pageReviews api (id' this) q) = {})
         \<longrightarrow> distinct (reviews (snd (getMaximumBusinessReviews api this))))"
proof -
  from assms have "fst (runReviewPageRequests api 1 (pageCount (totalReviews this))
      (this\<lparr>reviews := []\<rparr>)) = Inr ok"
    by (simp add: getMaximumBusinessReviews_run)
  from run_resolved [OF this]
  have run: "getMaximumBusinessReviews api this =
      (Inr True, this\<lparr>reviews := concat (map (pageReviews api (id' this)) (fetchedPages this)),
                     requests := requests this
                       @ map (BusinessReviews (id' this)) (fetchedPages this)\<rparr>)"
    by (simp add: getMaximumBusinessReviews_run fetchedPages_def)
  have d: "distinct (fetchedPages this)" by (simp add: fetchedPages_def)
  show ?thesis
    using distinct_concat_map [OF d, of "pageReviews api (id' this)"]
    by (simp add: run d length_concat comp_def)
qed

theorem C7_accumulated_reviews_witness:
  "length (reviews (snd (getMaximumBusinessReviews (provider 250 onePerPage)
         (TrustScore_new\<lparr>id' := ''bu-1'', totalReviews := 250\<rparr>)))) = 3
   \<and> distinct (reviews (snd (getMaximumBusinessReviews (provider 250 onePerPage)
         (TrustScore_new\<lparr>id' := ''bu-1'', totalReviews := 250\<rparr>))))"
proof -
  let ?t = "TrustScore_new\<lparr>id' := ''bu-1'', totalReviews := 250\<rparr>"
  have pages: "pageCount 250 = 3" by (simp add: pageCount_def MAX_REVIEW_AMOUNT_def)
  have ok: "\<not> isl (provider 250 onePerPage (BusinessReviews b p))" for b p
    by (simp add: provider_def onePerPage_def)
  have page: "pageReviews (provider 250 onePerPage) b p =
      [\<lparr>stars = of_int p, createdAt = \<lparr>getFullYear = 2026, getMonth = 8, getDate = 15\<rparr>\<rparr>]" for b p
    by (simp add: pageReviews_def provider_def onePerPage_def)
  have resolved: "fst (getMaximumBusinessReviews (provider 250 onePerPage) ?t) = Inr True"
    using getMaximumBusinessReviews_ok [of ?t "provider 250 onePerPage"]
    by (simp add: pages ok)
  have fetched: "fetchedPages ?t = [1, 2, 3]"
    by (simp add: fetchedPages_def pages lastPage_def upto.simps)
  from C7_accumulated_reviews [OF resolved] show ?thesis
    by (simp add: fetched page)
qed

section \<open>The score of an empty sequence\<close>

text \<open>
  C9: on an empty review sequence \<open>calculateScore\<close> returns NaN, under every rounding:
  the loop body never runs, \<open>0 / 0\<close> is NaN, and NaN survives the multiplication,
  \<open>Math.round\<close> and the division. It is a value, not an error: when the retrieval
  resolves with no reviews, \<open>getTrustScore\<close> resolves with a response whose
  \<open>trustScore\<close> is NaN.
\<close>

theorem C9_empty_reviews_NaN:
  "calculateScore rnd today (this\<lparr>reviews := []\<rparr>) = NaN
   \<and> (fst (prepareTrustScoreData api domain this) = Inr ok
        \<and> reviews (snd (prepareTrustScoreData api domain this)) = []
       \<longrightarrow> (\<exists>response. fst (getTrustScore rnd today api domain this) = Inr response
              \<and> trustScore response = NaN))"
proof -
  have empty: "calculateScore rnd today that = NaN" if "reviews that = []" for that
    using that by (simp add: calculateScore_def calculateScore_loop.simps Num_def)
  show ?thesis
    by (auto simp: getTrustScore_def empty split: prod.splits sum.splits)
qed

theorem C9_empty_reviews_NaN_witness:
  "\<exists>response. handler binary64 today_2026_11_03 (provider 0 noReviews) ''example.com'' = Inr response
     \<and> trustScore response = NaN"
proof -
  have zero: "pageCount 0 = 0" by (simp add: pageCount_def MAX_REVIEW_AMOUNT_def)
  have found: "provider 0 noReviews (FindBusinessUnit ''example.com'') =
      Inr \<lparr>body_id = ''bu-1'', numberOfReviews_total = 0, body_reviews = []\<rparr>"
    "provider 0 noReviews (BusinessInfo ''bu-1'') =
      Inr \<lparr>body_id = ''bu-1'', numberOfReviews_total = 0, body_reviews = []\<rparr>"
    by (simp_all add: provider_def)
  have page: "provider 0 noReviews (BusinessReviews ''bu-1'' 1) =
      Inr \<lparr>body_id = ''bu-1'', numberOfReviews_total = 0, body_reviews = []\<rparr>"
    by (simp add: provider_def noReviews_def)
  have prep: "prepareTrustScoreData (provider 0 noReviews) ''example.com'' TrustScore_new =
      (Inr True, \<lparr>id' = ''bu-1'', totalReviews = 0, reviews = [],
                  requests = [FindBusinessUnit ''example.com'', BusinessInfo ''bu-1'',
                              BusinessReviews ''bu-1'' 1]\<rparr>)"
    using run_unfold_Inr [where api = "provider 0 noReviews" and page = 1 and pages = 0
        and this = "\<lparr>id' = ''bu-1'', totalReviews = 0, reviews = [],
                     requests = [FindBusinessUnit ''example.com'', BusinessInfo ''bu-1'']\<rparr>",
        simplified, OF page]
    by (simp add: prepareTrustScoreData_found [where found =
          "\<lparr>body_id = ''bu-1'', numberOfReviews_total = 0, body_reviews = []\<rparr>"
          and info = "\<lparr>body_id = ''bu-1'', numberOfReviews_total = 0, body_reviews = []\<rparr>"]
        found getMaximumBusinessReviews_run zero TrustScore_new_def)
  from C9_empty_reviews_NaN [of binary64 today_2026_11_03 TrustScore_new "provider 0 noReviews"
      "''example.com''" True]
  show ?thesis
    by (simp add: prep handler_def)
qed

section \<open>Rounding to binary64\<close>

text \<open>
  Facts about \<open>binary64\<close>: it is evaluated with the help of \<open>binary64_normal\<close> (once
  the binade of a number is known, the rounded value is a matter of integer arithmetic);
  its finite results are left as they are by another rounding, it does not move a number
  past a binary64 number above it, the double of a binary64 number is a binary64
  number unless it overflows, and one rounding moves a number between 0 and a binary64
  number \<open>B \<ge> 1\<close> by at most \<open>B * unitRoundoff\<close>.
\<close>

lemma pow2_powi: "pow2 e = 2 powi e"
  by (simp add: pow2_def power_int_def inverse_eq_divide power_one_over)

lemma pow2_pos: "0 < pow2 e"
  by (simp add: pow2_def)

lemma pow2_less: "e < e' \<Longrightarrow> pow2 e < pow2 e'"
  by (simp add: pow2_powi power_int_strict_increasing)

lemma pow2_exponent_unique:
  assumes "pow2 k \<le> a" "a < pow2 (k + 1)" "pow2 n \<le> a" "a < pow2 (n + 1)"
  shows "n = k"
proof (rule ccontr)
  assume "n \<noteq> k"
  then consider "n + 1 \<le> k" | "k + 1 \<le> n" by linarith
  then show False
  proof cases
    case 1
    then have "pow2 (n + 1) \<le> pow2 k"
      by (simp add: pow2_powi power_int_increasing)
    with assms show False by linarith
  next
    case 2
    then have "pow2 (k + 1) \<le> pow2 n"
      by (simp add: pow2_powi power_int_increasing)
    with assms show False by linarith
  qed
qed

lemma bitlen_floor_bounds:
  assumes "1 \<le> a"
  shows "pow2 (bitlen \<lfloor>a\<rfloor> - 1) \<le> a \<and> a < pow2 (bitlen \<lfloor>a\<rfloor> - 1 + 1)"
proof -
  let ?f = "\<lfloor>a\<rfloor>"
  have f: "0 < ?f" using assms by linarith
  from bitlen_bounds [OF f]
  have lo: "2 ^ nat (bitlen ?f - 1) \<le> ?f" and hi: "?f < 2 ^ nat (bitlen ?f)" by simp_all
  have ge: "1 \<le> bitlen ?f" using f by (simp add: bitlen_ge_iff_power)
  have "real_of_int (2 ^ nat (bitlen ?f - 1)) \<le> of_int ?f"
    using lo by (rule of_int_le_iff [THEN iffD2])
  also have "\<dots> \<le> a" by simp
  finally have 1: "pow2 (bitlen ?f - 1) \<le> a"
    using ge by (simp add: pow2_def)
  have "?f + 1 \<le> 2 ^ nat (bitlen ?f)" using hi by simp
  then have "real_of_int (?f + 1) \<le> real_of_int (2 ^ nat (bitlen ?f))"
    by (rule of_int_le_iff [THEN iffD2])
  moreover have "a < real_of_int (?f + 1)" by simp
  ultimately have "a < real_of_int (2 ^ nat (bitlen ?f))" by linarith
  then have 2: "a < pow2 (bitlen ?f - 1 + 1)"
    using ge by (simp add: pow2_def)
  from 1 2 show ?thesis ..
qed

lemma pow2_add: "pow2 (a + b) = pow2 a * pow2 b"
  by (simp add: pow2_powi power_int_add)

lemma pow2_le: "e \<le> e' \<Longrightarrow> pow2 e \<le> pow2 e'"
  by (simp add: pow2_powi power_int_increasing)

lemma pow2_of_int: "0 \<le> d \<Longrightarrow> pow2 d = of_int (2 ^ nat d)"
  by (simp add: pow2_def)

lemma pow2_less_imp: "pow2 e < pow2 e' \<Longrightarrow> e < e'"
  using pow2_le [of e' e] by (cases "e < e'") auto

text \<open>\<open>floorlog2\<close> finds the binade of its argument.\<close>

lemma floorlog2_bounds:
  assumes "0 < a"
  shows "pow2 (floorlog2 a) \<le> a \<and> a < pow2 (floorlog2 a + 1)"
proof (cases "1 \<le> a")
  case True
  with bitlen_floor_bounds [OF True] show ?thesis by (simp add: floorlog2_def)
next
  case False
  define j where "j = bitlen \<lfloor>1 / a\<rfloor> - 1"
  have "1 \<le> 1 / a" using assms False by simp
  from bitlen_floor_bounds [OF this]
  have lo: "pow2 j \<le> 1 / a" and hi: "1 / a < pow2 (j + 1)" by (simp_all add: j_def)
  have inv: "pow2 (- e) = 1 / pow2 e" for e
    by (simp add: pow2_powi power_int_minus_divide)
  have hi': "pow2 (- (j + 1)) < a"
    using hi assms pow2_pos [of "j + 1"] unfolding inv by (simp add: field_simps)
  have lo': "a \<le> pow2 (- j)"
    using lo assms pow2_pos [of j] unfolding inv by (simp add: field_simps)
  show ?thesis
  proof (cases "a * pow2 j = 1")
    case True
    then have "a = pow2 (- j)" using pow2_pos [of j] unfolding inv by (simp add: field_simps)
    moreover have "pow2 (- j) < pow2 (- j + 1)" by (rule pow2_less) simp
    ultimately show ?thesis using True False by (simp add: floorlog2_def Let_def j_def)
  next
    case ne: False
    then have "a \<noteq> pow2 (- j)" using pow2_pos [of j] unfolding inv by (simp add: field_simps)
    with lo' have "a < pow2 (- (j + 1) + 1)" by simp
    with hi' show ?thesis using ne False by (simp add: floorlog2_def Let_def j_def)
  qed
qed

lemma floorlog2_eq:
  assumes "pow2 k \<le> a" "a < pow2 (k + 1)"
  shows "floorlog2 a = k"
proof -
  have "0 < a" using assms(1) pow2_pos [of k] by linarith
  from floorlog2_bounds [OF this] assms show ?thesis
    by (intro pow2_exponent_unique) auto
qed

lemma floorlog2_mono:
  assumes "0 < a" "a \<le> b"
  shows "floorlog2 a \<le> floorlog2 b"
proof -
  from assms have b: "0 < b" by simp
  from floorlog2_bounds [OF assms(1)] floorlog2_bounds [OF b] assms(2)
  have "pow2 (floorlog2 a) < pow2 (floorlog2 b + 1)" by linarith
  then have "floorlog2 a < floorlog2 b + 1" by (rule pow2_less_imp)
  then show ?thesis by simp
qed

lemma roundEven_le: "roundEven y \<le> \<lfloor>y\<rfloor> + 1"
  by (simp add: roundEven_def Let_def)

lemma roundEven_nonneg: "0 \<le> y \<Longrightarrow> 0 \<le> roundEven y"
  by (simp add: roundEven_def Let_def)

lemma roundEven_of_int: "roundEven (of_int m) = m"
  by (simp add: roundEven_def Let_def)

lemma roundEven_le_int:
  assumes "y \<le> of_int M"
  shows "roundEven y \<le> M"
proof (cases "\<lfloor>y\<rfloor> < M")
  case True
  with roundEven_le [of y] show ?thesis by simp
next
  case False
  moreover have "\<lfloor>y\<rfloor> \<le> M" using assms by (simp add: floor_le_iff) 
  ultimately have "\<lfloor>y\<rfloor> = M" by simp
  with assms have "y = of_int M" by linarith
  then show ?thesis by (simp add: roundEven_of_int)
qed

text \<open>The definition of \<open>binary64\<close> on a positive number.\<close>

lemma binary64_positive:
  assumes "0 < x"
  shows "binary64 x =
     (if pow2 1024 \<le> of_int (roundEven (x / pow2 (exponent64 x))) * pow2 (exponent64 x) then PInf
      else Fin (of_int (roundEven (x / pow2 (exponent64 x))) * pow2 (exponent64 x)))"
  using assms by (simp add: binary64_def Let_def)

text \<open>
  The value of \<open>binary64\<close> on a positive number of the normal range, given its binade:
  the significand is rounded at the spacing \<open>2^e\<close> of that binade.
\<close>

lemma binary64_normal:
  assumes "pow2 (e + 52) \<le> x" "x < pow2 (e + 53)" "- 1074 \<le> e" "e \<le> 970"
  shows "binary64 x = Fin (of_int (roundEven (x / pow2 e)) * pow2 e)"
proof -
  have x: "0 < x" using assms(1) pow2_pos [of "e + 52"] by linarith
  have fl: "floorlog2 x = e + 52"
    using assms(1,2) by (intro floorlog2_eq) (simp_all add: add.commute add.left_commute)
  have "x / pow2 e < pow2 53"
    using assms(2) pow2_pos [of e] by (simp add: pow2_powi power_int_add field_simps)
  then have "\<lfloor>x / pow2 e\<rfloor> < 2 ^ 53"
    by (simp add: pow2_def floor_less_iff)
  with roundEven_le [of "x / pow2 e"] have "roundEven (x / pow2 e) \<le> 2 ^ 53" by linarith
  then have "real_of_int (roundEven (x / pow2 e)) \<le> real_of_int (2 ^ 53)"
    by (rule of_int_le_iff [THEN iffD2])
  then have "of_int (roundEven (x / pow2 e)) * pow2 e \<le> pow2 53 * pow2 e"
    using pow2_pos [of e] by (simp add: pow2_def)
  also have "\<dots> = pow2 (e + 53)" by (simp add: pow2_powi power_int_add)
  also have "\<dots> < pow2 1024" using assms(4) by (intro pow2_less) simp
  finally have "\<not> pow2 1024 \<le> of_int (roundEven (x / pow2 e)) * pow2 e" by simp
  with x fl assms(3) show ?thesis
    by (simp add: binary64_def exponent64_def Let_def)
qed

lemma significand_le:
  assumes "0 < x"
  shows "roundEven (x / pow2 (exponent64 x)) \<le> 2 ^ 53"
proof -
  have "floorlog2 x + 1 \<le> exponent64 x + 53" by (simp add: exponent64_def)
  then have "pow2 (floorlog2 x + 1) \<le> pow2 (exponent64 x + 53)" by (rule pow2_le)
  with floorlog2_bounds [OF assms] have "x < pow2 (exponent64 x + 53)" by linarith
  then have "x / pow2 (exponent64 x) < pow2 53"
    using pow2_pos [of "exponent64 x"] by (simp add: pow2_add field_simps)
  then have "\<lfloor>x / pow2 (exponent64 x)\<rfloor> < 2 ^ 53"
    by (simp add: pow2_def floor_less_iff)
  with roundEven_le [of "x / pow2 (exponent64 x)"] show ?thesis by linarith
qed


text \<open>
  A positive number \<open>m * 2^e\<close> with an integer \<open>m\<close> of at most 53 bits and an exponent
  of the format is a binary64 number: rounding leaves it as it is.
\<close>

lemma binary64_fixed:
  assumes z: "z = of_int m * pow2 e" and m: "0 < m" "m \<le> 2 ^ 53"
    and e: "- 1074 \<le> e" and fin: "z < pow2 1024"
  shows "binary64 z = Fin z"
proof -
  have pos: "0 < z" using m(1) pow2_pos [of e] by (simp add: z)
  have int: "z / pow2 (exponent64 z) = of_int n \<Longrightarrow> binary64 z = Fin z" for n
  proof -
    assume n: "z / pow2 (exponent64 z) = of_int n"
    then have "roundEven (z / pow2 (exponent64 z)) = n" by (simp add: roundEven_of_int)
    moreover from n have "of_int n * pow2 (exponent64 z) = z"
      using pow2_pos [of "exponent64 z"] by (simp add: field_simps)
    ultimately have "of_int (roundEven (z / pow2 (exponent64 z))) * pow2 (exponent64 z) = z"
      by simp
    with fin show ?thesis by (simp add: binary64_positive [OF pos])
  qed
  show ?thesis
  proof (cases "m = 2 ^ 53")
    case True
    have p53: "real_of_int (2 ^ 53) = pow2 53" by (simp add: pow2_def)
    have "z = pow2 53 * pow2 e" unfolding z True p53 ..
    then have z53: "z = pow2 (e + 53)" by (simp add: pow2_add mult.commute)
    moreover have "pow2 (e + 53) < pow2 (e + 53 + 1)" by (rule pow2_less) simp
    ultimately have "floorlog2 z = e + 53" by (intro floorlog2_eq) simp_all
    then have ex: "exponent64 z = e + 1" using e by (simp add: exponent64_def)
    have "pow2 (e + 53) = pow2 (52 + (e + 1))" by (simp add: add.commute)
    also have "\<dots> = pow2 52 * pow2 (e + 1)" by (rule pow2_add)
    finally have "z / pow2 (e + 1) = pow2 52"
      using pow2_pos [of "e + 1"] by (simp add: z53)
    then have "z / pow2 (exponent64 z) = pow2 52" by (simp only: ex)
    also have "\<dots> = of_int (2 ^ 52)" by (simp add: pow2_def)
    finally have "z / pow2 (exponent64 z) = of_int (2 ^ 52)" .
    then show ?thesis by (rule int)
  next
    case False
    with m have "m + 1 \<le> 2 ^ 53" by simp
    then have "real_of_int (m + 1) \<le> real_of_int (2 ^ 53)" by (rule of_int_le_iff [THEN iffD2])
    also have "\<dots> = pow2 53" by (simp add: pow2_def)
    finally have "real_of_int m < pow2 53" by simp
    then have "z < pow2 53 * pow2 e" using pow2_pos [of e] by (simp add: z)
    then have "z < pow2 (e + 53)" by (simp add: pow2_add mult.commute)
    with floorlog2_bounds [OF pos] have "pow2 (floorlog2 z) < pow2 (e + 53)" by linarith
    then have "floorlog2 z < e + 53" by (rule pow2_less_imp)
    with e have le: "exponent64 z \<le> e" by (simp add: exponent64_def)
    define e' where "e' = exponent64 z"
    define d where "d = e - e'"
    have d: "0 \<le> d" using le by (simp add: d_def e'_def)
    have "pow2 e = pow2 (d + e')" by (simp add: d_def)
    also have "\<dots> = pow2 d * pow2 e'" by (rule pow2_add)
    finally have "of_int m * pow2 e / pow2 e' = of_int m * pow2 d"
      using pow2_pos [of e'] by simp
    then have "z / pow2 (exponent64 z) = of_int m * pow2 d"
      by (simp only: z [symmetric] e'_def)
    also have "\<dots> = of_int (m * 2 ^ nat d)" by (simp add: pow2_of_int [OF d])
    finally show ?thesis by (rule int)
  qed
qed

lemma binary64_int:
  assumes "0 < n" "n \<le> 2 ^ 53"
  shows "binary64 (of_int n) = Fin (of_int n)"
proof (rule binary64_fixed [where m = n and e = 0])
  have "real_of_int n \<le> real_of_int (2 ^ 53)" using assms(2) by (rule of_int_le_iff [THEN iffD2])
  also have "\<dots> < pow2 1024" by (simp add: pow2_def)
  finally show "real_of_int n < pow2 1024" .
qed (use assms in \<open>simp_all add: pow2_def\<close>)

text \<open>The finite results of \<open>binary64\<close> are binary64 numbers.\<close>

lemma binary64_positive_result:
  assumes "0 < x" "binary64 x = Fin y"
  shows "\<exists>m. y = of_int m * pow2 (exponent64 x) \<and> 0 \<le> m \<and> m \<le> 2 ^ 53 \<and> y < pow2 1024"
proof -
  let ?m = "roundEven (x / pow2 (exponent64 x))"
  have "0 \<le> x / pow2 (exponent64 x)" using assms(1) pow2_pos [of "exponent64 x"] by simp
  then have "0 \<le> ?m" by (rule roundEven_nonneg)
  moreover from assms have "y = of_int ?m * pow2 (exponent64 x) \<and> y < pow2 1024"
    by (simp add: binary64_positive split: if_splits)
  ultimately show ?thesis using significand_le [OF assms(1)] by blast
qed

lemma exponent64_ge: "- 1074 \<le> exponent64 x"
  by (simp add: exponent64_def)

lemma binary64_idem_pos:
  assumes "0 < x" "binary64 x = Fin y"
  shows "binary64 y = Fin y"
proof -
  from binary64_positive_result [OF assms] obtain m where
    m: "y = of_int m * pow2 (exponent64 x)" "0 \<le> m" "m \<le> 2 ^ 53" "y < pow2 1024" by blast
  show ?thesis
  proof (cases "m = 0")
    case True
    then show ?thesis by (simp add: m(1) binary64_def)
  next
    case False
    with m(2) have "0 < m" by simp
    then show ?thesis using m(1,3,4) exponent64_ge by (intro binary64_fixed [where m = m]) auto
  qed
qed


lemma binary64_minus: "binary64 (- x) = js_neg (binary64 x)"
  by (simp add: binary64_def Let_def)

lemma binary64_idem:
  assumes "binary64 x = Fin y"
  shows "binary64 y = Fin y"
proof -
  consider "x = 0" | "0 < x" | "x < 0" by linarith
  then show ?thesis
  proof cases
    case 1
    with assms show ?thesis by (simp add: binary64_def)
  next
    case 2
    then show ?thesis using assms by (rule binary64_idem_pos)
  next
    case 3
    from assms have "binary64 (- x) = Fin (- y)" by (simp add: binary64_minus)
    with 3 have "binary64 (- y) = Fin (- y)" by (intro binary64_idem_pos [of "- x"]) simp_all
    then have "js_neg (binary64 y) = Fin (- y)" by (simp add: binary64_minus)
    then show ?thesis by (cases "binary64 y") simp_all
  qed
qed

text \<open>Rounding does not move a number past a binary64 number above it.\<close>

lemma binary64_le_fixed:
  assumes "0 \<le> x" "x \<le> z" "binary64 z = Fin z"
  shows "\<exists>y. binary64 x = Fin y \<and> 0 \<le> y \<and> y \<le> z"
proof (cases "x = 0")
  case True
  with assms show ?thesis by (simp add: binary64_def)
next
  case False
  with assms have x: "0 < x" and z: "0 < z" by simp_all
  from binary64_positive_result [OF z assms(3)] obtain m where
    m: "z = of_int m * pow2 (exponent64 z)" "z < pow2 1024" by blast
  have le: "exponent64 x \<le> exponent64 z"
    using floorlog2_mono [OF x assms(2)] by (simp add: exponent64_def)
  define d where "d = exponent64 z - exponent64 x"
  have d: "0 \<le> d" using le by (simp add: d_def)
  have "pow2 (exponent64 z) = pow2 (d + exponent64 x)" by (simp add: d_def)
  also have "\<dots> = pow2 d * pow2 (exponent64 x)" by (rule pow2_add)
  finally have "of_int m * pow2 (exponent64 z) / pow2 (exponent64 x) = of_int m * pow2 d"
    using pow2_pos [of "exponent64 x"] by simp
  then have "z / pow2 (exponent64 x) = of_int m * pow2 d"
    by (simp only: m(1) [symmetric])
  also have "\<dots> = of_int (m * 2 ^ nat d)" by (simp add: pow2_of_int [OF d])
  finally have zq: "z / pow2 (exponent64 x) = of_int (m * 2 ^ nat d)" .
  let ?r = "roundEven (x / pow2 (exponent64 x))"
  have "x / pow2 (exponent64 x) \<le> z / pow2 (exponent64 x)"
    using assms(2) pow2_pos [of "exponent64 x"] by (simp add: divide_right_mono)
  then have "?r \<le> m * 2 ^ nat d" unfolding zq by (rule roundEven_le_int)
  then have "real_of_int ?r \<le> real_of_int (m * 2 ^ nat d)" by (rule of_int_le_iff [THEN iffD2])
  then have "of_int ?r * pow2 (exponent64 x) \<le> of_int (m * 2 ^ nat d) * pow2 (exponent64 x)"
    using pow2_pos [of "exponent64 x"] by (simp only: mult_le_cancel_right_pos)
  also have "\<dots> = z" using pow2_pos [of "exponent64 x"] zq [symmetric] by simp
  finally have y: "of_int ?r * pow2 (exponent64 x) \<le> z" .
  have "0 \<le> x / pow2 (exponent64 x)" using x pow2_pos [of "exponent64 x"] by simp
  then have "0 \<le> ?r" by (rule roundEven_nonneg)
  then have "0 \<le> of_int ?r * pow2 (exponent64 x)" using pow2_pos [of "exponent64 x"] by simp
  with y m(2) show ?thesis by (simp add: binary64_positive [OF x])
qed

text \<open>The double of a binary64 number is a binary64 number, unless it overflows.\<close>

lemma binary64_double:
  assumes "binary64 z = Fin z" "0 \<le> z" "2 * z < pow2 1024"
  shows "binary64 (2 * z) = Fin (2 * z)"
proof (cases "z = 0")
  case True
  then show ?thesis by (simp add: binary64_def)
next
  case False
  with assms have z: "0 < z" by simp
  from binary64_positive_result [OF z assms(1)] obtain m where
    m: "z = of_int m * pow2 (exponent64 z)" "0 \<le> m" "m \<le> 2 ^ 53" by blast
  from m(1) z have "m \<noteq> 0" by auto
  with m(2) have m0: "0 < m" by simp
  have "pow2 (exponent64 z + 1) = pow2 (exponent64 z) * pow2 1" by (rule pow2_add)
  also have "\<dots> = 2 * pow2 (exponent64 z)" by (simp add: pow2_def)
  finally have "of_int m * pow2 (exponent64 z + 1) = 2 * (of_int m * pow2 (exponent64 z))" by simp
  then have "2 * z = of_int m * pow2 (exponent64 z + 1)" by (simp only: m(1) [symmetric])
  then show ?thesis
  proof (rule binary64_fixed [where m = m and e = "exponent64 z + 1"])
    show "- 1074 \<le> exponent64 z + 1" using exponent64_ge [of z] by simp
  qed (use m0 m(3) assms(3) in simp_all)
qed

text \<open>A number from 1 on is not rounded to 0.\<close>

lemma binary64_nonzero:
  assumes "1 \<le> x"
  shows "binary64 x \<noteq> Fin 0"
proof -
  have x: "0 < x" using assms by simp
  have "pow2 0 \<le> x" using assms by (simp add: pow2_def)
  with floorlog2_bounds [OF x] have "pow2 0 < pow2 (floorlog2 x + 1)" by linarith
  then have "0 < floorlog2 x + 1" by (rule pow2_less_imp)
  then have ex: "exponent64 x = floorlog2 x - 52" by (simp add: exponent64_def)
  have "pow2 (floorlog2 x) = pow2 (52 + exponent64 x)" by (simp add: ex)
  also have "\<dots> = pow2 52 * pow2 (exponent64 x)" by (rule pow2_add)
  finally have "pow2 52 * pow2 (exponent64 x) \<le> x" using floorlog2_bounds [OF x] by simp
  then have "pow2 52 \<le> x / pow2 (exponent64 x)"
    using pow2_pos [of "exponent64 x"] by (simp add: field_simps)
  moreover have "(1 :: real) \<le> pow2 52" by (simp add: pow2_def)
  ultimately have "1 \<le> x / pow2 (exponent64 x)" by linarith
  then have "1 \<le> \<lfloor>x / pow2 (exponent64 x)\<rfloor>" by (simp add: le_floor_iff)
  moreover have "\<lfloor>x / pow2 (exponent64 x)\<rfloor> \<le> roundEven (x / pow2 (exponent64 x))"
    by (simp add: roundEven_def Let_def)
  ultimately have "0 < roundEven (x / pow2 (exponent64 x))" by linarith
  then have "real_of_int (roundEven (x / pow2 (exponent64 x))) * pow2 (exponent64 x) \<noteq> 0"
    using pow2_pos [of "exponent64 x"] by simp
  then show ?thesis by (simp only: binary64_positive [OF x] split: if_splits) simp
qed

text \<open>A positive number is rounded to a number that is not negative, or to infinity.\<close>

lemma binary64_pos:
  assumes "0 < x"
  shows "binary64 x = PInf \<or> (\<exists>y\<ge>0. binary64 x = Fin y)"
proof -
  define e where "e = exponent64 x"
  have "0 \<le> x / pow2 e" using assms pow2_pos [of e] by simp
  then have "0 \<le> roundEven (x / pow2 e)" by (rule roundEven_nonneg)
  then have "0 \<le> real_of_int (roundEven (x / pow2 e)) * pow2 e"
    using pow2_pos [of e] by simp
  with assms show ?thesis
    by (simp add: binary64_def Let_def e_def)
qed

lemma binary64_1: "binary64 1 = Fin 1"
  using binary64_normal [of "- 52" 1] by (simp add: pow2_def roundEven_def Let_def)

lemma js_nonneg_simps [simp]:
  "js_nonneg (Fin y) = (0 \<le> y)" "js_nonneg PInf" "\<not> js_nonneg NInf" "\<not> js_nonneg NaN"
  by (simp_all add: js_nonneg_def)

lemma js_nonneg_cases:
  assumes "js_nonneg v"
  obtains "v = PInf" | y where "v = Fin y" "0 \<le> y"
  using assms by (cases v) simp_all

lemma binary64_finite:
  assumes "binary64 x = Fin y" "0 \<le> x"
  shows "y < pow2 1024"
proof (cases "x = 0")
  case True
  with assms show ?thesis using pow2_pos [of 1024] by (simp add: binary64_def)
next
  case False
  with assms(2) have "0 < x" by simp
  from binary64_positive_result [OF this assms(1)] show ?thesis by blast
qed

lemma binary64_nonneg:
  assumes "0 \<le> x"
  shows "js_nonneg (binary64 x)"
proof (cases "x = 0")
  case True
  then show ?thesis by (simp add: binary64_def)
next
  case False
  with assms have "0 < x" by simp
  from binary64_pos [OF this] show ?thesis by auto
qed

lemma binary64_double_below:
  assumes "binary64 z = Fin z" "0 \<le> z" "z \<le> w" "binary64 (2 * w) = Fin (2 * w)"
  shows "binary64 (2 * z) = Fin (2 * z)"
proof -
  from assms(2,3) have "0 \<le> 2 * w" by simp
  with assms(4) have "2 * w < pow2 1024" by (rule binary64_finite)
  with assms(3) have "2 * z < pow2 1024" by simp
  with assms(1,2) show ?thesis by (intro binary64_double)
qed

text \<open>
  The error of one rounding: a number between 0 and a binary64 number \<open>B \<ge> 1\<close> is
  rounded to a number of that range, at a distance of at most \<open>B * unitRoundoff\<close>.
\<close>

lemma unitRoundoff_pos: "0 < unitRoundoff"
  by (simp add: unitRoundoff_def)

lemma roundEven_error: "\<bar>of_int (roundEven y) - y\<bar> \<le> 1 / 2"
  by (simp add: roundEven_def Let_def)

lemma binary64_error:
  assumes "0 \<le> x" "x \<le> B" "1 \<le> B" "binary64 B = Fin B"
  shows "\<exists>y. binary64 x = Fin y \<and> 0 \<le> y \<and> y \<le> B \<and> \<bar>y - x\<bar> \<le> B * unitRoundoff"
proof (cases "x = 0")
  case True
  with assms(3) unitRoundoff_pos show ?thesis by (simp add: binary64_def)
next
  case False
  with assms(1) have x: "0 < x" by simp
  from binary64_le_fixed [OF assms(1,2,4)] obtain y where
    y: "binary64 x = Fin y" "0 \<le> y" "y \<le> B" by blast
  define e where "e = exponent64 x"
  have pe: "0 < pow2 e" by (rule pow2_pos)
  from y(1) have yv: "y = of_int (roundEven (x / pow2 e)) * pow2 e"
    by (simp add: binary64_positive [OF x] e_def split: if_splits)
  have "y - x = (of_int (roundEven (x / pow2 e)) - x / pow2 e) * pow2 e"
    using pe by (simp add: yv left_diff_distrib)
  then have "\<bar>y - x\<bar> = \<bar>of_int (roundEven (x / pow2 e)) - x / pow2 e\<bar> * pow2 e"
    using pe by (simp only: abs_mult)
  also have "\<dots> \<le> 1 / 2 * pow2 e"
    using roundEven_error [of "x / pow2 e"] pe by (intro mult_right_mono) simp_all
  finally have err: "\<bar>y - x\<bar> \<le> pow2 e / 2" by simp
  have "pow2 e \<le> B * pow2 (- 52)"
  proof (cases "- 1074 \<le> floorlog2 x - 52")
    case True
    then have "e = floorlog2 x + (- 52)" by (simp add: e_def exponent64_def)
    then have "pow2 e = pow2 (floorlog2 x) * pow2 (- 52)" by (simp only: pow2_add)
    also have "\<dots> \<le> B * pow2 (- 52)"
      using floorlog2_bounds [OF x] assms(2) pow2_pos [of "- 52"]
      by (intro mult_right_mono) simp_all
    finally show ?thesis .
  next
    case False
    then have "e = - 1074" by (simp add: e_def exponent64_def)
    then have "pow2 e \<le> pow2 (- 52)" by (simp add: pow2_le)
    also have "\<dots> \<le> B * pow2 (- 52)" using assms(3) pow2_pos [of "- 52"] by simp
    finally show ?thesis .
  qed
  moreover have "pow2 (- 52) / 2 = unitRoundoff" by (simp add: pow2_def unitRoundoff_def)
  ultimately have "pow2 e / 2 \<le> B * unitRoundoff" by (simp add: field_simps) 
  with err y show ?thesis by force
qed

lemma abs_error_trans:
  fixes x y z :: real
  assumes "\<bar>x - y\<bar> \<le> p" "\<bar>y - z\<bar> \<le> q"
  shows "\<bar>x - z\<bar> \<le> p + q"
  using assms by linarith

lemma binary64_consts:
  "binary64 1 = Fin 1" "binary64 2 = Fin 2" "binary64 4 = Fin 4" "binary64 5 = Fin 5"
  "binary64 10 = Fin 10" "binary64 100 = Fin 100"
  using binary64_int [of 1] binary64_int [of 2] binary64_int [of 4] binary64_int [of 5]
    binary64_int [of 10] binary64_int [of 100]
  by simp_all

lemma abs_mult_error:
  fixes x y :: real
  assumes "\<bar>x - x'\<bar> \<le> p" "\<bar>y - y'\<bar> \<le> q" "\<bar>y\<bar> \<le> b" "\<bar>x'\<bar> \<le> b'"
  shows "\<bar>x * y - x' * y'\<bar> \<le> p * b + b' * q"
proof -
  have "x * y - x' * y' = (x - x') * y + x' * (y - y')" by (simp add: algebra_simps)
  then have "\<bar>x * y - x' * y'\<bar> \<le> \<bar>(x - x') * y\<bar> + \<bar>x' * (y - y')\<bar>"
    by (simp only: abs_triangle_ineq)
  also have "\<dots> = \<bar>x - x'\<bar> * \<bar>y\<bar> + \<bar>x'\<bar> * \<bar>y - y'\<bar>" by (simp only: abs_mult)
  also have "\<dots> \<le> p * b + b' * q"
    using assms by (intro add_mono mult_mono) (auto intro: order_trans [OF abs_ge_zero])
  finally show ?thesis .
qed

section \<open>The score of a review\<close>

lemmas score_defs = reviewScore_def ratingScore_def effectiveStars_def ageScore_def ageModifier_def
  js_sub_def js_gt_def js_ge_def js_signed_inf_def MAX_REVIEW_AGE_def MAX_REVIEW_STARS_def Let_def

lemmas spec_defs = spec_reviewScore_def spec_ratingScore_def spec_effectiveStars_def
  spec_ageScore_def spec_ageModifier_def

lemma exact_reviewScore:
  assumes "1 \<le> a"
  shows "ratingScore exact (Fin s) (Num a) = Fin (spec_ratingScore s (of_int a))"
    and "effectiveStars exact (Fin s) (Num a) = Fin (spec_effectiveStars s (of_int a))"
    and "reviewScore exact (Fin s) (Num a) = Fin (spec_reviewScore s (of_int a))"
  using assms by (auto simp: score_defs spec_defs Num_def exact_def min_def)

lemma loop_foldl:
  assumes "index \<le> length rs"
  shows "calculateScore_loop rnd today rs index (length rs) totalTrustScore =
     foldl (js_add rnd) totalTrustScore (map (contribution rnd today) (drop index rs))"
  using assms
proof (induction rnd today rs index "length rs" totalTrustScore
    rule: calculateScore_loop.induct)
  case (1 rnd today rs index totalTrustScore)
  show ?case
  proof (cases "index < length rs")
    case True
    then have d: "drop index rs = rs ! index # drop (index + 1) rs"
      by (simp add: Cons_nth_drop_Suc)
    from True "1.hyps" [OF True refl refl refl] show ?thesis
      by (subst calculateScore_loop.simps) (simp add: d contribution_def monthsSince_def Let_def)
  next
    case False
    with "1.prems" show ?thesis
      by (subst calculateScore_loop.simps) simp
  qed
qed

lemma calculateScore_foldl:
  "calculateScore rnd today this =
     js_div rnd
       (Math_round
         (js_mul rnd
           (js_div rnd (foldl (js_add rnd) (Fin 0) (map (contribution rnd today) (reviews this)))
                       (Num (int (length (reviews this)))))
           (Fin 10)))
       (Fin 10)"
  by (simp add: calculateScore_def loop_foldl Let_def)

lemma foldl_exact_Fin:
  "foldl (js_add exact) (Fin acc) (map Fin xs) = Fin (acc + sum_list xs)"
  by (induction xs arbitrary: acc) (simp_all add: exact_def add.assoc)

lemma age_zero_contribution:
  assumes "0 < s" "rnd 0 = Fin 0" "rnd 1 = Fin 1" "rnd s = Fin s" "rnd (2 * s) = Fin (2 * s)"
    and pos: "\<And>x. 0 < x \<Longrightarrow> rnd x = PInf \<or> (\<exists>y\<ge>0. rnd x = Fin y)"
  shows "ageScore rnd (Fin s) (Num 0) = PInf \<and> ratingScore rnd (Fin s) (Num 0) = Fin 2
     \<and> effectiveStars rnd (Fin s) (Num 0) = Fin s
     \<and> reviewScore rnd (Fin s) (Num 0) = Fin (2 * s)"
proof -
  have age: "ageScore rnd (Fin s) (Num 0) = PInf"
    using assms(1,2) by (simp add: score_defs Num_def)
  have modifier: "ageModifier rnd (Num 0) = Fin 1"
    using assms(2,3) by (simp add: score_defs Num_def)
  from pos [of "s / 5"] assms(1)
  have "js_div rnd (Fin s) MAX_REVIEW_STARS = PInf
      \<or> (\<exists>y\<ge>0. js_div rnd (Fin s) MAX_REVIEW_STARS = Fin y)"
    by (simp add: MAX_REVIEW_STARS_def)
  then have "js_add rnd (js_div rnd (Fin s) MAX_REVIEW_STARS) (Fin 1) = PInf
      \<or> (\<exists>y. js_add rnd (js_div rnd (Fin s) MAX_REVIEW_STARS) (Fin 1) = Fin y)"
  proof (elim disjE exE conjE)
    fix y :: real assume y: "0 \<le> y" "js_div rnd (Fin s) MAX_REVIEW_STARS = Fin y"
    from pos [of "y + 1"] y(1) show ?thesis by (auto simp: y(2))
  qed simp
  then have "js_add rnd (js_add rnd (js_div rnd (Fin s) MAX_REVIEW_STARS) (Fin 1)) PInf = PInf"
    by auto
  then have rating: "ratingScore rnd (Fin s) (Num 0) = Fin 2"
    by (simp add: ratingScore_def age modifier js_gt_def)
  have stars: "effectiveStars rnd (Fin s) (Num 0) = Fin s"
    by (simp add: effectiveStars_def js_gt_def MAX_REVIEW_AGE_def Num_def)
  have "reviewScore rnd (Fin s) (Num 0) = Fin (2 * s)"
    using assms(4,5) by (simp add: reviewScore_def rating stars mult.commute)
  with age rating stars show ?thesis by simp
qed

text \<open>
  The rounding error of the term of a review in binary64 arithmetic, for stars between 0
  and 5 and an age of at least 1: each variable of the loop body is followed through its
  roundings and compared with the specification's real-valued formula.
\<close>

lemma ageModifier_error:
  assumes "0 \<le> a"
  shows "\<exists>m. ageModifier binary64 (Num a) = Fin m \<and> 0 \<le> m \<and> m \<le> 1
           \<and> \<bar>m - spec_ageModifier (of_int a)\<bar> \<le> 2 * unitRoundoff"
proof (cases "36 \<le> a")
  case True
  then show ?thesis
    using unitRoundoff_pos
    by (simp add: ageModifier_def js_ge_def MAX_REVIEW_AGE_def Num_def spec_ageModifier_def)
next
  case False
  with assms have "0 \<le> real_of_int a / 36" "real_of_int a / 36 \<le> 1" by simp_all
  from binary64_error [OF this _ binary64_consts(1)] obtain q where
    q: "binary64 (real_of_int a / 36) = Fin q" "0 \<le> q" "q \<le> 1"
      "\<bar>q - real_of_int a / 36\<bar> \<le> 1 * unitRoundoff" by auto
  from q(2,3) have "0 \<le> 1 - q" "1 - q \<le> 1" by simp_all
  from binary64_error [OF this _ binary64_consts(1)] obtain m where
    m: "binary64 (1 - q) = Fin m" "0 \<le> m" "m \<le> 1"
      "\<bar>m - (1 - q)\<bar> \<le> 1 * unitRoundoff" by auto
  have "ageModifier binary64 (Num a) = Fin m"
    using False q(1) m(1)
    by (simp add: ageModifier_def js_ge_def js_sub_def MAX_REVIEW_AGE_def Num_def)
  moreover have "spec_ageModifier (of_int a) = 1 - real_of_int a / 36"
    using False by (simp add: spec_ageModifier_def)
  ultimately show ?thesis using m(2,3,4) q(4) by (intro exI [of _ m]) (simp; linarith)
qed

lemma ageScore_error:
  assumes "0 \<le> s" "s \<le> 5" "1 \<le> a" "a \<le> 2 ^ 52"
  shows "\<exists>g. ageScore binary64 (Fin s) (Num a) = Fin g \<and> 0 \<le> g \<and> g \<le> 1
           \<and> \<bar>g - spec_ageScore s (of_int a)\<bar> \<le> 2 * unitRoundoff"
proof -
  have "real_of_int a * 2 = of_int (a * 2)" by simp
  moreover have "binary64 (of_int (a * 2)) = Fin (of_int (a * 2))"
    using assms(3,4) by (intro binary64_int) simp_all
  ultimately have d: "binary64 (real_of_int a * 2) = Fin (real_of_int a * 2)" by simp
  have a: "1 \<le> real_of_int a" using assms(3) by simp
  then have "s / (real_of_int a * 2) \<le> s / (1 * 2)"
    using assms(1) by (intro divide_left_mono mult_mono) simp_all
  with assms(1,2) a have "0 \<le> s / (real_of_int a * 2)" "s / (real_of_int a * 2) \<le> 5" by simp_all
  from binary64_error [OF this _ binary64_consts(4)] obtain x where
    x: "binary64 (s / (real_of_int a * 2)) = Fin x" "0 \<le> x" "x \<le> 5"
      "\<bar>x - s / (real_of_int a * 2)\<bar> \<le> 5 * unitRoundoff" by auto
  from x(2,3) have "0 \<le> x / 5" "x / 5 \<le> 1" by simp_all
  from binary64_error [OF this _ binary64_consts(1)] obtain g where
    g: "binary64 (x / 5) = Fin g" "0 \<le> g" "g \<le> 1"
      "\<bar>g - x / 5\<bar> \<le> 1 * unitRoundoff" by auto
  have "ageScore binary64 (Fin s) (Num a) = Fin g"
    using a d x(1) g(1) by (simp add: ageScore_def Num_def MAX_REVIEW_STARS_def)
  moreover have "\<bar>g - spec_ageScore s (of_int a)\<bar> \<le> 2 * unitRoundoff"
    using g(4) x(4) by (simp add: spec_ageScore_def)
  ultimately show ?thesis using g(2,3) by blast
qed

lemma ratingScore_error:
  assumes "0 \<le> s" "s \<le> 5" "1 \<le> a" "a \<le> 2 ^ 52"
  shows "\<exists>r. ratingScore binary64 (Fin s) (Num a) = Fin r \<and> 0 \<le> r \<and> r \<le> 2
           \<and> \<bar>r - spec_ratingScore s (of_int a)\<bar> \<le> 11 * unitRoundoff"
proof -
  from ageModifier_error [of a] assms(3) obtain m where
    m: "ageModifier binary64 (Num a) = Fin m" "0 \<le> m" "m \<le> 1"
      "\<bar>m - spec_ageModifier (of_int a)\<bar> \<le> 2 * unitRoundoff" by auto
  from ageScore_error [OF assms] obtain g where
    g: "ageScore binary64 (Fin s) (Num a) = Fin g" "0 \<le> g" "g \<le> 1"
      "\<bar>g - spec_ageScore s (of_int a)\<bar> \<le> 2 * unitRoundoff" by auto
  from assms(1,2) have "0 \<le> s / 5" "s / 5 \<le> 1" by simp_all
  from binary64_error [OF this _ binary64_consts(1)] obtain p where
    p: "binary64 (s / 5) = Fin p" "0 \<le> p" "p \<le> 1"
      "\<bar>p - s / 5\<bar> \<le> 1 * unitRoundoff" by auto
  from p(2,3) m(2,3) have "0 \<le> p + m" "p + m \<le> 2" by simp_all
  from binary64_error [OF this _ binary64_consts(2)] obtain r1 where
    r1: "binary64 (p + m) = Fin r1" "0 \<le> r1" "r1 \<le> 2"
      "\<bar>r1 - (p + m)\<bar> \<le> 2 * unitRoundoff" by auto
  from r1(2,3) g(2,3) have "0 \<le> r1 + g" "r1 + g \<le> 4" by simp_all
  from binary64_error [OF this _ binary64_consts(3)] obtain r2 where
    r2: "binary64 (r1 + g) = Fin r2" "0 \<le> r2" "r2 \<le> 4"
      "\<bar>r2 - (r1 + g)\<bar> \<le> 4 * unitRoundoff" by auto
  have "ratingScore binary64 (Fin s) (Num a) = Fin (min 2 r2)"
    using m(1) g(1) p(1) r1(1) r2(1)
    by (simp add: ratingScore_def MAX_REVIEW_STARS_def js_gt_def min_def)
  moreover have "\<bar>min 2 r2 - spec_ratingScore s (of_int a)\<bar> \<le> 11 * unitRoundoff"
    using m(4) g(4) p(4) r1(4) r2(4) by (simp add: spec_ratingScore_def)
  ultimately show ?thesis using r2(2) by (intro exI [of _ "min 2 r2"]) simp
qed

lemma effectiveStars_error:
  assumes "0 \<le> s" "s \<le> 5" "1 \<le> a"
  shows "\<exists>e. effectiveStars binary64 (Fin s) (Num a) = Fin e \<and> 0 \<le> e \<and> e \<le> 5
           \<and> 0 \<le> spec_effectiveStars s (of_int a) \<and> spec_effectiveStars s (of_int a) \<le> 5
           \<and> \<bar>e - spec_effectiveStars s (of_int a)\<bar> \<le> 10 * unitRoundoff"
proof (cases "36 < a")
  case False
  then show ?thesis
    using assms unitRoundoff_pos
    by (simp add: effectiveStars_def js_gt_def MAX_REVIEW_AGE_def Num_def spec_effectiveStars_def)
next
  case True
  then have "0 \<le> 36 / real_of_int a" "36 / real_of_int a \<le> 1" by simp_all
  from binary64_error [OF this _ binary64_consts(1)] obtain c where
    c: "binary64 (36 / real_of_int a) = Fin c" "0 \<le> c" "c \<le> 1"
      "\<bar>c - 36 / real_of_int a\<bar> \<le> 1 * unitRoundoff" by auto
  from c(2,3) assms(1,2) have sc: "0 \<le> s * c" "s * c \<le> 5"
    using mult_mono [of s 5 c 1] by simp_all
  from binary64_error [OF this _ binary64_consts(4)] obtain e where
    e: "binary64 (s * c) = Fin e" "0 \<le> e" "e \<le> 5"
      "\<bar>e - s * c\<bar> \<le> 5 * unitRoundoff" by auto
  have eff: "effectiveStars binary64 (Fin s) (Num a) = Fin e"
    using True c(1) e(1) by (simp add: effectiveStars_def js_gt_def MAX_REVIEW_AGE_def Num_def)
  have spec: "spec_effectiveStars s (of_int a) = s * (36 / real_of_int a)"
    using True by (simp add: spec_effectiveStars_def)
  have "0 \<le> s * (36 / real_of_int a)" "s * (36 / real_of_int a) \<le> 5"
    using assms(1,2) \<open>0 \<le> 36 / real_of_int a\<close> \<open>36 / real_of_int a \<le> 1\<close>
      mult_mono [of s 5 "36 / real_of_int a" 1] by simp_all
  moreover have "\<bar>s * c - s * (36 / real_of_int a)\<bar> \<le> 5 * unitRoundoff"
  proof -
    have "s * c - s * (36 / real_of_int a) = s * (c - 36 / real_of_int a)"
      by (simp add: right_diff_distrib)
    then have "\<bar>s * c - s * (36 / real_of_int a)\<bar> = \<bar>s\<bar> * \<bar>c - 36 / real_of_int a\<bar>"
      by (simp only: abs_mult)
    also have "\<dots> = s * \<bar>c - 36 / real_of_int a\<bar>" using assms(1) by simp
    also have "\<dots> \<le> 5 * (1 * unitRoundoff)"
      using assms(1,2) c(4) by (intro mult_mono) simp_all
    finally show ?thesis by simp
  qed
  ultimately have b: "0 \<le> s * (36 / real_of_int a)" "s * (36 / real_of_int a) \<le> 5"
    "\<bar>s * c - s * (36 / real_of_int a)\<bar> \<le> 5 * unitRoundoff"
    by blast+
  from abs_error_trans [OF e(4) b(3)]
  have "\<bar>e - s * (36 / real_of_int a)\<bar> \<le> 10 * unitRoundoff" by simp
  with e(2,3) b(1,2) show ?thesis unfolding eff spec by blast
qed

lemma reviewScore_error:
  assumes "0 \<le> s" "s \<le> 5" "1 \<le> a" "a \<le> 2 ^ 52"
  shows "\<exists>t. reviewScore binary64 (Fin s) (Num a) = Fin t \<and> 0 \<le> t \<and> t \<le> 10
           \<and> \<bar>t - spec_reviewScore s (of_int a)\<bar> \<le> 68 * unitRoundoff"
proof -
  define R where "R = spec_ratingScore s (of_int a)"
  define E where "E = spec_effectiveStars s (of_int a)"
  from ratingScore_error [OF assms] obtain r where
    r: "ratingScore binary64 (Fin s) (Num a) = Fin r" "0 \<le> r" "r \<le> 2"
      "\<bar>r - R\<bar> \<le> 11 * unitRoundoff" unfolding R_def by auto
  from effectiveStars_error [OF assms(1,2,3)] obtain e where
    e: "effectiveStars binary64 (Fin s) (Num a) = Fin e" "0 \<le> e" "e \<le> 5"
      "0 \<le> E" "E \<le> 5" "\<bar>e - E\<bar> \<le> 10 * unitRoundoff" unfolding E_def by auto
  define P where "P = e * r"
  define Q where "Q = E * R"
  have "\<bar>e * r - E * R\<bar> \<le> 10 * unitRoundoff * 2 + 5 * (11 * unitRoundoff)"
    using e(6) r(4) r(2,3) e(4,5) by (intro abs_mult_error) simp_all
  then have PQ: "\<bar>P - Q\<bar> \<le> 75 * unitRoundoff" by (simp add: P_def Q_def)
  have "0 \<le> e * r" "e * r \<le> 10"
    using e(2,3) r(2,3) mult_mono [of e 5 r 2] by simp_all
  then have "0 \<le> P" "P \<le> 10" by (simp_all add: P_def)
  from binary64_error [OF this _ binary64_consts(5)] obtain t1 where
    t1: "binary64 P = Fin t1" "0 \<le> t1" "t1 \<le> 10" "\<bar>t1 - P\<bar> \<le> 10 * unitRoundoff"
    by auto
  from t1(2,3) have "0 \<le> t1 / 2" "t1 / 2 \<le> 5" by simp_all
  from binary64_error [OF this _ binary64_consts(4)] obtain t2 where
    t2: "binary64 (t1 / 2) = Fin t2" "0 \<le> t2" "t2 \<le> 5"
      "\<bar>t2 - t1 / 2\<bar> \<le> 5 * unitRoundoff" by auto
  from t2(2,3) e(2,3) have "0 \<le> e + t2" "e + t2 \<le> 10" by simp_all
  from binary64_error [OF this _ binary64_consts(5)] obtain t where
    t: "binary64 (e + t2) = Fin t" "0 \<le> t" "t \<le> 10"
      "\<bar>t - (e + t2)\<bar> \<le> 10 * unitRoundoff" by auto
  have "reviewScore binary64 (Fin s) (Num a) = Fin t"
    using t1(1) t2(1) t(1) by (simp add: reviewScore_def r(1) e(1) P_def)
  moreover have "spec_reviewScore s (of_int a) = E + Q / 2"
    by (simp add: spec_reviewScore_def E_def R_def Q_def)
  moreover have "\<bar>t - (E + Q / 2)\<bar> \<le> 68 * unitRoundoff"
    using t(4) t2(4) t1(4) PQ e(6) unitRoundoff_pos by linarith
  ultimately show ?thesis using t(2,3) by auto
qed

lemma monthsSince_nonneg: "0 \<le> monthsSince today r"
  by (simp add: monthsSince_def getMonthsSinceReviewDate_def Let_def)

lemma contribution_error:
  assumes "0 \<le> stars r" "stars r \<le> 5" "binary64 (stars r) = Fin (stars r)"
    and "monthsSince today r \<le> 2 ^ 52" "0 < stars r \<or> 1 \<le> monthsSince today r"
  shows "\<exists>t. contribution binary64 today r = Fin t \<and> 0 \<le> t \<and> t \<le> 10
           \<and> \<bar>t - reviewTerm today r\<bar> \<le> 68 * unitRoundoff"
proof (cases "monthsSince today r = 0")
  case True
  with assms(5) have pos: "0 < stars r" by simp
  have "2 * stars r < pow2 1024"
  proof -
    have "2 * stars r \<le> 10" using assms(2) by simp
    also have "\<dots> < pow2 1024" by (simp add: pow2_def)
    finally show ?thesis .
  qed
  with assms(1,3) have "binary64 (2 * stars r) = Fin (2 * stars r)" by (intro binary64_double)
  with age_zero_contribution [of "stars r" binary64] pos assms(3) binary64_pos binary64_1
  have "reviewScore binary64 (Fin (stars r)) (Num 0) = Fin (2 * stars r)"
    by (simp add: binary64_def)
  then show ?thesis
    using True assms(1,2) unitRoundoff_pos by (simp add: contribution_def reviewTerm_def)
next
  case False
  with monthsSince_nonneg [of today r] have "1 \<le> monthsSince today r" by simp
  from reviewScore_error [OF assms(1,2) this assms(4)] False show ?thesis
    by (simp add: contribution_def reviewTerm_def)
qed

text \<open>
  Without rounding the term of a review is \<open>reviewTerm\<close>; a review with 0 stars of
  age 0 has the term NaN.
\<close>

lemma exact_contribution:
  assumes "0 < stars r \<or> 1 \<le> monthsSince today r"
  shows "contribution exact today r = Fin (reviewTerm today r)"
proof (cases "monthsSince today r = 0")
  case True
  with assms have "0 < stars r" by simp
  with age_zero_contribution [of "stars r" exact] True show ?thesis
    by (simp add: contribution_def reviewTerm_def exact_def)
next
  case False
  with monthsSince_nonneg [of today r] have "1 \<le> monthsSince today r" by simp
  with False show ?thesis by (simp add: contribution_def reviewTerm_def exact_reviewScore(3))
qed

lemma NaN_contribution:
  assumes "rnd = exact \<or> rnd = binary64" "stars r = 0" "monthsSince today r = 0"
  shows "contribution rnd today r = NaN"
proof -
  have "binary64 0 = Fin 0" by (simp add: binary64_def)
  with assms show ?thesis
    by (auto simp: contribution_def score_defs Num_def exact_def binary64_1)
qed

text \<open>
  The terms of the example reviews in binary64 arithmetic, one rounding at a time.
\<close>

lemma reviewScore_binary64_1_3:
  "reviewScore binary64 (Fin 1) (Fin 3) = Fin (1773292353277133 / 1125899906842624)"
proof -
  have "binary64 (1 / 12) = Fin (6004799503160661 / 72057594037927936)"
    using binary64_normal [of "- 56" "1 / 12"] by (simp add: pow2_def roundEven_def Let_def)
  moreover have "binary64 (66052794534767275 / 72057594037927936) = Fin (8256599316845909 / 9007199254740992)"
    using binary64_normal [of "- 53" "66052794534767275 / 72057594037927936"] by (simp add: pow2_def roundEven_def Let_def)
  moreover have "binary64 (6) = Fin (6)"
    using binary64_normal [of "- 50" "6"] by (simp add: pow2_def roundEven_def Let_def)
  moreover have "binary64 (1 / 6) = Fin (6004799503160661 / 36028797018963968)"
    using binary64_normal [of "- 55" "1 / 6"] by (simp add: pow2_def roundEven_def Let_def)
  moreover have "binary64 (6004799503160661 / 180143985094819840) = Fin (4803839602528529 / 144115188075855872)"
    using binary64_normal [of "- 57" "6004799503160661 / 180143985094819840"] by (simp add: pow2_def roundEven_def Let_def)
  moreover have "binary64 (1 / 5) = Fin (3602879701896397 / 18014398509481984)"
    using binary64_normal [of "- 55" "1 / 5"] by (simp add: pow2_def roundEven_def Let_def)
  moreover have "binary64 (20116078335588215 / 18014398509481984) = Fin (2514509791948527 / 2251799813685248)"
    using binary64_normal [of "- 52" "20116078335588215 / 18014398509481984"] by (simp add: pow2_def roundEven_def Let_def)
  moreover have "binary64 (165732466287234257 / 144115188075855872) = Fin (5179139571476071 / 4503599627370496)"
    using binary64_normal [of "- 52" "165732466287234257 / 144115188075855872"] by (simp add: pow2_def roundEven_def Let_def)
  moreover have "binary64 (5179139571476071 / 4503599627370496) = Fin (5179139571476071 / 4503599627370496)"
    using binary64_normal [of "- 52" "5179139571476071 / 4503599627370496"] by (simp add: pow2_def roundEven_def Let_def)
  moreover have "binary64 (5179139571476071 / 9007199254740992) = Fin (5179139571476071 / 9007199254740992)"
    using binary64_normal [of "- 53" "5179139571476071 / 9007199254740992"] by (simp add: pow2_def roundEven_def Let_def)
  moreover have "binary64 (14186338826217063 / 9007199254740992) = Fin (1773292353277133 / 1125899906842624)"
    using binary64_normal [of "- 52" "14186338826217063 / 9007199254740992"] by (simp add: pow2_def roundEven_def Let_def)
  ultimately show ?thesis
    by (simp add: score_defs)
qed

lemma reviewScore_binary64_2_6:
  "reviewScore binary64 (Fin 2) (Fin 6) = Fin (3677939695685905 / 1125899906842624)"
proof -
  have "binary64 (1 / 6) = Fin (6004799503160661 / 36028797018963968)"
    using binary64_normal [of "- 55" "1 / 6"] by (simp add: pow2_def roundEven_def Let_def)
  moreover have "binary64 (30023997515803307 / 36028797018963968) = Fin (7505999378950827 / 9007199254740992)"
    using binary64_normal [of "- 53" "30023997515803307 / 36028797018963968"] by (simp add: pow2_def roundEven_def Let_def)
  moreover have "binary64 (12) = Fin (12)"
    using binary64_normal [of "- 49" "12"] by (simp add: pow2_def roundEven_def Let_def)
  moreover have "binary64 (6004799503160661 / 180143985094819840) = Fin (4803839602528529 / 144115188075855872)"
    using binary64_normal [of "- 57" "6004799503160661 / 180143985094819840"] by (simp add: pow2_def roundEven_def Let_def)
  moreover have "binary64 (2 / 5) = Fin (3602879701896397 / 9007199254740992)"
    using binary64_normal [of "- 54" "2 / 5"] by (simp add: pow2_def roundEven_def Let_def)
  moreover have "binary64 (1388609885105903 / 1125899906842624) = Fin (1388609885105903 / 1125899906842624)"
    using binary64_normal [of "- 52" "1388609885105903 / 1125899906842624"] by (simp add: pow2_def roundEven_def Let_def)
  moreover have "binary64 (182545904896084113 / 144115188075855872) = Fin (5704559528002629 / 4503599627370496)"
    using binary64_normal [of "- 52" "182545904896084113 / 144115188075855872"] by (simp add: pow2_def roundEven_def Let_def)
  moreover have "binary64 (5704559528002629 / 2251799813685248) = Fin (5704559528002629 / 2251799813685248)"
    using binary64_normal [of "- 51" "5704559528002629 / 2251799813685248"] by (simp add: pow2_def roundEven_def Let_def)
  moreover have "binary64 (5704559528002629 / 4503599627370496) = Fin (5704559528002629 / 4503599627370496)"
    using binary64_normal [of "- 52" "5704559528002629 / 4503599627370496"] by (simp add: pow2_def roundEven_def Let_def)
  moreover have "binary64 (14711758782743621 / 4503599627370496) = Fin (3677939695685905 / 1125899906842624)"
    using binary64_normal [of "- 51" "14711758782743621 / 4503599627370496"] by (simp add: pow2_def roundEven_def Let_def)
  ultimately show ?thesis
    by (simp add: score_defs)
qed

lemma reviewScore_binary64_3_1:
  "reviewScore binary64 (Fin 3) (Fin 1) = Fin (1634900489727727 / 281474976710656)"
proof -
  have "binary64 (1 / 36) = Fin (2001599834386887 / 72057594037927936)"
    using binary64_normal [of "- 58" "1 / 36"] by (simp add: pow2_def roundEven_def Let_def)
  moreover have "binary64 (70055994203541049 / 72057594037927936) = Fin (8756999275442631 / 9007199254740992)"
    using binary64_normal [of "- 53" "70055994203541049 / 72057594037927936"] by (simp add: pow2_def roundEven_def Let_def)
  moreover have "binary64 (2) = Fin (2)"
    using binary64_normal [of "- 51" "2"] by (simp add: pow2_def roundEven_def Let_def)
  moreover have "binary64 (3 / 2) = Fin (3 / 2)"
    using binary64_normal [of "- 52" "3 / 2"] by (simp add: pow2_def roundEven_def Let_def)
  moreover have "binary64 (3 / 10) = Fin (5404319552844595 / 18014398509481984)"
    using binary64_normal [of "- 54" "3 / 10"] by (simp add: pow2_def roundEven_def Let_def)
  moreover have "binary64 (3 / 5) = Fin (5404319552844595 / 9007199254740992)"
    using binary64_normal [of "- 53" "3 / 5"] by (simp add: pow2_def roundEven_def Let_def)
  moreover have "binary64 (7080659414143613 / 4503599627370496) = Fin (7080659414143613 / 4503599627370496)"
    using binary64_normal [of "- 52" "7080659414143613 / 4503599627370496"] by (simp add: pow2_def roundEven_def Let_def)
  moreover have "binary64 (33726957209419047 / 18014398509481984) = Fin (4215869651177381 / 2251799813685248)"
    using binary64_normal [of "- 52" "33726957209419047 / 18014398509481984"] by (simp add: pow2_def roundEven_def Let_def)
  moreover have "binary64 (12647608953532143 / 2251799813685248) = Fin (790475559595759 / 140737488355328)"
    using binary64_normal [of "- 50" "12647608953532143 / 2251799813685248"] by (simp add: pow2_def roundEven_def Let_def)
  moreover have "binary64 (790475559595759 / 281474976710656) = Fin (790475559595759 / 281474976710656)"
    using binary64_normal [of "- 51" "790475559595759 / 281474976710656"] by (simp add: pow2_def roundEven_def Let_def)
  moreover have "binary64 (1634900489727727 / 281474976710656) = Fin (1634900489727727 / 281474976710656)"
    using binary64_normal [of "- 50" "1634900489727727 / 281474976710656"] by (simp add: pow2_def roundEven_def Let_def)
  ultimately show ?thesis
    by (simp add: score_defs)
qed

lemma reviewScore_binary64_5_1:
  "reviewScore binary64 (Fin 5) (Fin 1) = Fin (10)"
proof -
  have "binary64 (1 / 36) = Fin (2001599834386887 / 72057594037927936)"
    using binary64_normal [of "- 58" "1 / 36"] by (simp add: pow2_def roundEven_def Let_def)
  moreover have "binary64 (70055994203541049 / 72057594037927936) = Fin (8756999275442631 / 9007199254740992)"
    using binary64_normal [of "- 53" "70055994203541049 / 72057594037927936"] by (simp add: pow2_def roundEven_def Let_def)
  moreover have "binary64 (2) = Fin (2)"
    using binary64_normal [of "- 51" "2"] by (simp add: pow2_def roundEven_def Let_def)
  moreover have "binary64 (5 / 2) = Fin (5 / 2)"
    using binary64_normal [of "- 51" "5 / 2"] by (simp add: pow2_def roundEven_def Let_def)
  moreover have "binary64 (1 / 2) = Fin (1 / 2)"
    using binary64_normal [of "- 53" "1 / 2"] by (simp add: pow2_def roundEven_def Let_def)
  moreover have "binary64 (1) = Fin (1)"
    using binary64_normal [of "- 52" "1"] by (simp add: pow2_def roundEven_def Let_def)
  moreover have "binary64 (17764198530183623 / 9007199254740992) = Fin (2220524816272953 / 1125899906842624)"
    using binary64_normal [of "- 52" "17764198530183623 / 9007199254740992"] by (simp add: pow2_def roundEven_def Let_def)
  moreover have "binary64 (2783474769694265 / 1125899906842624) = Fin (2783474769694265 / 1125899906842624)"
    using binary64_normal [of "- 51" "2783474769694265 / 1125899906842624"] by (simp add: pow2_def roundEven_def Let_def)
  moreover have "binary64 (10) = Fin (10)"
    using binary64_normal [of "- 49" "10"] by (simp add: pow2_def roundEven_def Let_def)
  moreover have "binary64 (5) = Fin (5)"
    using binary64_normal [of "- 50" "5"] by (simp add: pow2_def roundEven_def Let_def)
  ultimately show ?thesis
    by (simp add: score_defs)
qed



section \<open>The bound on the term of a review\<close>

text \<open>
  C6, as stated, fails: a review with 5 stars of age 1 has the rating score 2 and adds
  \<open>5 + (5 * 2) / 2 = 10\<close>, which is \<open>2 * effectiveStars\<close> and more than
  \<open>1.5 * effectiveStars = 7.5\<close>; without rounding and in binary64 arithmetic alike.
\<close>

theorem C6_bound_counterexample:
  "reviewScore exact (Fin 5) (Num 1) = Fin 10 \<and> effectiveStars exact (Fin 5) (Num 1) = Fin 5
   \<and> reviewScore binary64 (Fin 5) (Num 1) = Fin 10
   \<and> effectiveStars binary64 (Fin 5) (Num 1) = Fin 5
   \<and> \<not> (10 :: real) \<le> 1.5 * 5"
proof -
  have "reviewScore exact (Fin 5) (Num 1) = Fin 10"
    "effectiveStars exact (Fin 5) (Num 1) = Fin 5"
    by (simp_all add: exact_reviewScore spec_defs)
  moreover have "reviewScore binary64 (Fin 5) (Num 1) = Fin 10"
    using reviewScore_binary64_5_1 by (simp add: Num_def)
  moreover have "effectiveStars binary64 (Fin 5) (Num 1) = Fin 5"
    by (simp add: effectiveStars_def js_gt_def MAX_REVIEW_AGE_def Num_def)
  ultimately show ?thesis by simp
qed

text \<open>
  What the bound on the term of a review needs of the rounding; \<open>exact\<close> and
  \<open>binary64\<close> have these properties.
\<close>

lemma contribution_bound:
  fixes rnd :: rounding
  assumes zero: "rnd 0 = Fin 0" and one: "rnd 1 = Fin 1"
    and pos: "\<And>x. 0 \<le> x \<Longrightarrow> js_nonneg (rnd x)"
    and le: "\<And>x z. 0 \<le> x \<Longrightarrow> x \<le> z \<Longrightarrow> rnd z = Fin z
                \<Longrightarrow> \<exists>y. rnd x = Fin y \<and> 0 \<le> y \<and> y \<le> z"
    and idem: "\<And>x y. rnd x = Fin y \<Longrightarrow> rnd y = Fin y"
    and dbl: "\<And>z w. rnd z = Fin z \<Longrightarrow> 0 \<le> z \<Longrightarrow> z \<le> w \<Longrightarrow> rnd (2 * w) = Fin (2 * w)
                \<Longrightarrow> rnd (2 * z) = Fin (2 * z)"
    and nz: "\<And>x. 1 \<le> x \<Longrightarrow> rnd x \<noteq> Fin 0"
    and s: "0 \<le> s" "rnd s = Fin s" "rnd (2 * s) = Fin (2 * s)"
    and a: "0 \<le> a" and sa: "0 < s \<or> 0 < a"
  shows "\<exists>score eff. reviewScore rnd (Fin s) (Num a) = Fin score
          \<and> effectiveStars rnd (Fin s) (Num a) = Fin eff \<and> 0 \<le> eff \<and> score \<le> 2 * eff"
proof -
  have add: "js_nonneg (js_add rnd u v)" if "js_nonneg u" "js_nonneg v" for u v
    using that by (elim js_nonneg_cases) (simp_all add: pos)
  have div: "js_nonneg (js_div rnd u (Fin 5))" if "js_nonneg u" for u
    using that by (elim js_nonneg_cases) (simp_all add: pos js_signed_inf_def)
  have clamp: "\<exists>r. (if js_gt v (Fin 2) then Fin 2 else v) = Fin r \<and> 0 \<le> r \<and> r \<le> 2"
    if "js_nonneg v" for v
    using that by (cases v) (auto simp: js_gt_def)
  \<comment> \<open>the age modifier\<close>
  have modifier: "js_nonneg (ageModifier rnd (Num a))"
  proof (cases "36 \<le> a")
    case True
    then show ?thesis by (simp add: ageModifier_def js_ge_def MAX_REVIEW_AGE_def Num_def)
  next
    case False
    then have "real_of_int a / 36 \<le> 1" by simp
    with le [of "real_of_int a / 36" 1] a one
    obtain q where q: "rnd (real_of_int a / 36) = Fin q" "0 \<le> q" "q \<le> 1" by auto
    from pos [of "1 - q"] q(3) have "js_nonneg (rnd (1 - q))" by simp
    with False q(1) show ?thesis
      by (simp add: ageModifier_def js_ge_def js_sub_def MAX_REVIEW_AGE_def Num_def)
  qed
  \<comment> \<open>the age score\<close>
  have age: "js_nonneg (ageScore rnd (Fin s) (Num a))"
  proof (cases "a = 0")
    case True
    with sa have "0 < s" by simp
    with True show ?thesis
      by (simp add: ageScore_def Num_def zero js_signed_inf_def MAX_REVIEW_STARS_def)
  next
    case False
    with a have "1 \<le> real_of_int a * 2" by simp
    from nz [OF this] pos [of "real_of_int a * 2"] a
    have "rnd (real_of_int a * 2) = PInf \<or> (\<exists>d>0. rnd (real_of_int a * 2) = Fin d)"
      by (cases "rnd (real_of_int a * 2)") auto
    then have "js_nonneg (js_div rnd (Fin s) (js_mul rnd (Num a) (Fin 2)))"
    proof (elim disjE exE conjE)
      fix d :: real assume d: "0 < d" "rnd (real_of_int a * 2) = Fin d"
      with s(1) pos [of "s / d"] show ?thesis by (simp add: Num_def)
    qed (simp add: Num_def)
    then show ?thesis unfolding ageScore_def MAX_REVIEW_STARS_def by (rule div)
  qed
  \<comment> \<open>the rating score\<close>
  have "js_nonneg (js_div rnd (Fin s) MAX_REVIEW_STARS)"
    using pos [of "s / 5"] s(1) by (simp add: MAX_REVIEW_STARS_def)
  then have "js_nonneg (js_add rnd (js_add rnd (js_div rnd (Fin s) MAX_REVIEW_STARS)
      (ageModifier rnd (Num a))) (ageScore rnd (Fin s) (Num a)))"
    by (intro add modifier age)
  then have "\<exists>r. ratingScore rnd (Fin s) (Num a) = Fin r \<and> 0 \<le> r \<and> r \<le> 2"
    unfolding ratingScore_def Let_def by (rule clamp)
  then obtain r where r: "ratingScore rnd (Fin s) (Num a) = Fin r" "0 \<le> r" "r \<le> 2"
    by blast
  \<comment> \<open>the stars after the discount\<close>
  obtain eff where eff: "effectiveStars rnd (Fin s) (Num a) = Fin eff" "0 \<le> eff" "eff \<le> s"
    "rnd eff = Fin eff"
  proof (cases "36 < a")
    case False
    with s that [of s] show ?thesis
      by (simp add: effectiveStars_def js_gt_def MAX_REVIEW_AGE_def Num_def)
  next
    case True
    then have "0 \<le> 36 / real_of_int a" "36 / real_of_int a \<le> 1" by simp_all
    with le [of "36 / real_of_int a" 1] one
    obtain q where q: "rnd (36 / real_of_int a) = Fin q" "0 \<le> q" "q \<le> 1" by auto
    from q(2,3) s(1) have "0 \<le> s * q" "s * q \<le> s"
      by (simp_all add: mult_left_le)
    with le [of "s * q" s] s(2)
    obtain e where e: "rnd (s * q) = Fin e" "0 \<le> e" "e \<le> s" by auto
    from idem [OF e(1)] True q(1) e show ?thesis
      by (intro that [of e]) (simp_all add: effectiveStars_def js_gt_def MAX_REVIEW_AGE_def Num_def)
  qed
  have eff2: "rnd (2 * eff) = Fin (2 * eff)"
    using eff(4,2,3) s(3) by (rule dbl)
  \<comment> \<open>the term\<close>
  have "eff * r \<le> eff * 2" using r(3) eff(2) by (rule mult_left_mono)
  then have "0 \<le> eff * r" "eff * r \<le> 2 * eff" using eff(2) r(2) by simp_all
  with le [of "eff * r" "2 * eff"] eff2
  obtain t1 where t1: "rnd (eff * r) = Fin t1" "0 \<le> t1" "t1 \<le> 2 * eff" by auto
  then have "0 \<le> t1 / 2" "t1 / 2 \<le> eff" by simp_all
  with le [of "t1 / 2" eff] eff(4)
  obtain t2 where t2: "rnd (t1 / 2) = Fin t2" "0 \<le> t2" "t2 \<le> eff" by auto
  then have "0 \<le> eff + t2" "eff + t2 \<le> 2 * eff" using eff(2) by simp_all
  with le [of "eff + t2" "2 * eff"] eff2
  obtain score where score: "rnd (eff + t2) = Fin score" "score \<le> 2 * eff" by auto
  have "reviewScore rnd (Fin s) (Num a) = Fin score"
    by (simp add: reviewScore_def r(1) eff(1) t1(1) t2(1) score(1))
  with eff(1,2) score(2) show ?thesis by blast
qed

text \<open>
  C6, amended: the clamp of the rating score at 2 bounds the term of a review by
  \<open>2 * effectiveStars\<close>, for every review with stars \<open>s \<ge> 0\<close> and age \<open>a \<ge> 0\<close>
  other than \<open>s = 0\<close>, \<open>a = 0\<close> (where the term is NaN). This holds without rounding and
  with binary64 rounding, for every \<open>s\<close> such that \<open>s\<close> and \<open>2 * s\<close> are numbers of the
  arithmetic.
\<close>

theorem C6_contribution_bound:
  "(rnd = exact \<or> rnd = binary64) \<and> 0 \<le> s \<and> 0 \<le> a \<and> (0 < s \<or> 0 < a)
     \<and> rnd s = Fin s \<and> rnd (2 * s) = Fin (2 * s)
   \<longrightarrow> (\<exists>score eff. reviewScore rnd (Fin s) (Num a) = Fin score
          \<and> effectiveStars rnd (Fin s) (Num a) = Fin eff
          \<and> 0 \<le> eff \<and> score \<le> 2 * eff)"
proof (intro impI)
  assume "(rnd = exact \<or> rnd = binary64) \<and> 0 \<le> s \<and> 0 \<le> a \<and> (0 < s \<or> 0 < a)
     \<and> rnd s = Fin s \<and> rnd (2 * s) = Fin (2 * s)"
  then have rnd: "rnd = exact \<or> rnd = binary64"
    and h: "0 \<le> s" "0 \<le> a" "0 < s \<or> 0 < a" "rnd s = Fin s" "rnd (2 * s) = Fin (2 * s)"
    by simp_all
  from rnd show "\<exists>score eff. reviewScore rnd (Fin s) (Num a) = Fin score
          \<and> effectiveStars rnd (Fin s) (Num a) = Fin eff \<and> 0 \<le> eff \<and> score \<le> 2 * eff"
  proof
    assume "rnd = exact"
    then show ?thesis
      by (intro contribution_bound) (use h in \<open>simp_all add: exact_def\<close>)
  next
    assume b: "rnd = binary64"
    show ?thesis
    proof (rule contribution_bound)
      show "rnd 0 = Fin 0" using b by (simp add: binary64_def)
      show "rnd 1 = Fin 1" using b by (simp add: binary64_1)
      show "js_nonneg (rnd x)" if "0 \<le> x" for x
        using that b by (simp add: binary64_nonneg)
      show "\<exists>y. rnd x = Fin y \<and> 0 \<le> y \<and> y \<le> z" if "0 \<le> x" "x \<le> z" "rnd z = Fin z" for x z
        using that binary64_le_fixed [of x z] unfolding b by blast
      show "rnd y = Fin y" if "rnd x = Fin y" for x y
        using that binary64_idem [of x y] unfolding b by blast
      show "rnd (2 * z) = Fin (2 * z)"
        if "rnd z = Fin z" "0 \<le> z" "z \<le> w" "rnd (2 * w) = Fin (2 * w)" for z w
        using that binary64_double_below [of z w] unfolding b by blast
      show "rnd x \<noteq> Fin 0" if "1 \<le> x" for x
        using that binary64_nonzero [of x] unfolding b by blast
    qed (use h in simp_all)
  qed
qed

theorem C6_contribution_bound_witness:
  "\<exists>score eff. reviewScore binary64 (Fin 5) (Num 1) = Fin score
     \<and> effectiveStars binary64 (Fin 5) (Num 1) = Fin eff \<and> 0 \<le> eff \<and> score \<le> 2 * eff"
proof -
  have "binary64 5 = Fin 5" "binary64 (2 * 5) = Fin (2 * 5)"
    using binary64_int [of 5] binary64_int [of 10] by simp_all
  with C6_contribution_bound [of binary64 5 1] show ?thesis by simp
qed

section \<open>The score of a review sequence\<close>

text \<open>
  The score of the three reviews with 2, 3 and 1 stars of age 6, 1 and 3 in binary64
  arithmetic, in two orders.
\<close>

lemma calculateScore_binary64_order_a:
  "calculateScore binary64 today_2026_11_03 (this\<lparr>reviews := [review_2_6, review_3_1, review_1_3]\<rparr>) = Fin (7 / 2)"
proof -
  have "binary64 (3677939695685905 / 1125899906842624) = Fin (3677939695685905 / 1125899906842624)"
    using binary64_normal [of "- 51" "3677939695685905 / 1125899906842624"] by (simp add: pow2_def roundEven_def Let_def)
  moreover have "binary64 (10217541654596813 / 1125899906842624) = Fin (2554385413649203 / 281474976710656)"
    using binary64_normal [of "- 49" "10217541654596813 / 1125899906842624"] by (simp add: pow2_def roundEven_def Let_def)
  moreover have "binary64 (11990834007873945 / 1125899906842624) = Fin (1498854250984243 / 140737488355328)"
    using binary64_normal [of "- 49" "11990834007873945 / 1125899906842624"] by (simp add: pow2_def roundEven_def Let_def)
  moreover have "binary64 (1498854250984243 / 422212465065984) = Fin (7993889338582629 / 2251799813685248)"
    using binary64_normal [of "- 51" "1498854250984243 / 422212465065984"] by (simp add: pow2_def roundEven_def Let_def)
  moreover have "binary64 (39969446692913145 / 1125899906842624) = Fin (4996180836614143 / 140737488355328)"
    using binary64_normal [of "- 47" "39969446692913145 / 1125899906842624"] by (simp add: pow2_def roundEven_def Let_def)
  moreover have "binary64 (7 / 2) = Fin (7 / 2)"
    using binary64_normal [of "- 51" "7 / 2"] by (simp add: pow2_def roundEven_def Let_def)
  ultimately show ?thesis
    by (simp add: calculateScore_def calculateScore_loop.simps Let_def Num_def
        getMonthsSinceReviewDate_def today_2026_11_03_def review_1_3_def review_2_6_def
        review_3_1_def reviewScore_binary64_1_3 reviewScore_binary64_2_6
        reviewScore_binary64_3_1)
qed

lemma calculateScore_binary64_order_b:
  "calculateScore binary64 today_2026_11_03 (this\<lparr>reviews := [review_1_3, review_2_6, review_3_1]\<rparr>) = Fin (8106479329266893 / 2251799813685248)"
proof -
  have "binary64 (1773292353277133 / 1125899906842624) = Fin (1773292353277133 / 1125899906842624)"
    using binary64_normal [of "- 52" "1773292353277133 / 1125899906842624"] by (simp add: pow2_def roundEven_def Let_def)
  moreover have "binary64 (2725616024481519 / 562949953421312) = Fin (2725616024481519 / 562949953421312)"
    using binary64_normal [of "- 50" "2725616024481519 / 562949953421312"] by (simp add: pow2_def roundEven_def Let_def)
  moreover have "binary64 (5995417003936973 / 562949953421312) = Fin (5995417003936973 / 562949953421312)"
    using binary64_normal [of "- 49" "5995417003936973 / 562949953421312"] by (simp add: pow2_def roundEven_def Let_def)
  moreover have "binary64 (5995417003936973 / 1688849860263936) = Fin (7993889338582631 / 2251799813685248)"
    using binary64_normal [of "- 51" "5995417003936973 / 1688849860263936"] by (simp add: pow2_def roundEven_def Let_def)
  moreover have "binary64 (39969446692913155 / 1125899906842624) = Fin (71 / 2)"
    using binary64_normal [of "- 47" "39969446692913155 / 1125899906842624"] by (simp add: pow2_def roundEven_def Let_def)
  moreover have "binary64 (18 / 5) = Fin (8106479329266893 / 2251799813685248)"
    using binary64_normal [of "- 51" "18 / 5"] by (simp add: pow2_def roundEven_def Let_def)
  ultimately show ?thesis
    by (simp add: calculateScore_def calculateScore_loop.simps Let_def Num_def
        getMonthsSinceReviewDate_def today_2026_11_03_def review_1_3_def review_2_6_def
        review_3_1_def reviewScore_binary64_1_3 reviewScore_binary64_2_6
        reviewScore_binary64_3_1)
qed

text \<open>
  The rounding error of the sum of the terms, taken from left to right, and of the mean
  times 10 that \<open>Math.round\<close> is applied to.
\<close>

lemma foldl_contribution_error:
  assumes "\<forall>r\<in>set rs. 0 \<le> stars r \<and> stars r \<le> 5 \<and> binary64 (stars r) = Fin (stars r)
             \<and> monthsSince today r \<le> 2 ^ 52 \<and> (0 < stars r \<or> 1 \<le> monthsSince today r)"
    and "0 \<le> A" "A \<le> 10 * real k" "k + length rs \<le> N" "N \<le> 2 ^ 32"
  shows "\<exists>A'. foldl (js_add binary64) (Fin A) (map (contribution binary64 today) rs) = Fin A'
           \<and> 0 \<le> A' \<and> A' \<le> 10 * real (k + length rs)
           \<and> \<bar>A' - (S + (\<Sum>r\<leftarrow>rs. reviewTerm today r))\<bar>
               \<le> \<bar>A - S\<bar> + real (length rs) * ((68 + 10 * real N) * unitRoundoff)"
  using assms
proof (induction rs arbitrary: A k S)
  case Nil
  then show ?case by simp
next
  case (Cons r rs)
  define c where "c = (68 + 10 * real N) * unitRoundoff"
  from Cons.prems(1) contribution_error [of r today] obtain t where
    t: "contribution binary64 today r = Fin t" "0 \<le> t" "t \<le> 10"
      "\<bar>t - reviewTerm today r\<bar> \<le> 68 * unitRoundoff" by auto
  define B where "B = 10 * real (k + 1)"
  have kN: "k + 1 \<le> N" using Cons.prems(4) by simp
  have "int (10 * (k + 1)) \<le> 10 * 2 ^ 32" using kN Cons.prems(5) by simp
  then have "int (10 * (k + 1)) \<le> 2 ^ 53" by simp
  then have "binary64 (of_int (int (10 * (k + 1)))) = Fin (of_int (int (10 * (k + 1))))"
    by (intro binary64_int) simp_all
  then have B: "binary64 B = Fin B" by (simp add: B_def)
  have B1: "1 \<le> B" by (simp add: B_def)
  have BN: "B \<le> 10 * real N" using kN by (simp add: B_def)
  from Cons.prems(2,3) t(2,3) have "0 \<le> A + t" "A + t \<le> B" by (simp_all add: B_def)
  from binary64_error [OF this B1 B] obtain A1 where
    A1: "binary64 (A + t) = Fin A1" "0 \<le> A1" "A1 \<le> B" "\<bar>A1 - (A + t)\<bar> \<le> B * unitRoundoff"
    by auto
  have "B * unitRoundoff \<le> 10 * real N * unitRoundoff"
    using BN unitRoundoff_pos by (intro mult_right_mono) simp_all
  with A1(4) t(4) have step: "\<bar>A1 - (S + reviewTerm today r)\<bar> \<le> \<bar>A - S\<bar> + c"
    unfolding c_def by (simp add: algebra_simps)
  have "\<exists>A'. foldl (js_add binary64) (Fin A1) (map (contribution binary64 today) rs) = Fin A'
           \<and> 0 \<le> A' \<and> A' \<le> 10 * real (k + 1 + length rs)
           \<and> \<bar>A' - (S + reviewTerm today r + (\<Sum>r\<leftarrow>rs. reviewTerm today r))\<bar>
               \<le> \<bar>A1 - (S + reviewTerm today r)\<bar>
                 + real (length rs) * ((68 + 10 * real N) * unitRoundoff)"
  proof (rule Cons.IH)
    show "A1 \<le> 10 * real (k + 1)" using A1(3) by (simp add: B_def)
    show "k + 1 + length rs \<le> N" using Cons.prems(4) by simp
  qed (use Cons.prems(1,5) A1(2) in simp_all)
  then obtain A' where
    A': "foldl (js_add binary64) (Fin A1) (map (contribution binary64 today) rs) = Fin A'"
      "0 \<le> A'" "A' \<le> 10 * real (k + 1 + length rs)"
      "\<bar>A' - (S + reviewTerm today r + (\<Sum>r\<leftarrow>rs. reviewTerm today r))\<bar>
         \<le> \<bar>A1 - (S + reviewTerm today r)\<bar> + real (length rs) * c"
    unfolding c_def by blast
  have "foldl (js_add binary64) (Fin A) (map (contribution binary64 today) (r # rs)) = Fin A'"
    by (simp add: t(1) A1(1) A'(1))
  moreover have "A' \<le> 10 * real (k + length (r # rs))" using A'(3) by simp
  moreover have "\<bar>A' - (S + (\<Sum>r\<leftarrow>r # rs. reviewTerm today r))\<bar>
      \<le> \<bar>A - S\<bar> + real (length (r # rs)) * c"
    using A'(4) step by (simp add: algebra_simps)
  ultimately show ?case using A'(2) unfolding c_def by blast
qed

lemma calculateScore_binary64_error:
  assumes "rs \<noteq> []" "length rs \<le> 2 ^ 32"
    and "\<forall>r\<in>set rs. 0 \<le> stars r \<and> stars r \<le> 5 \<and> binary64 (stars r) = Fin (stars r)
             \<and> monthsSince today r \<le> 2 ^ 52 \<and> (0 < stars r \<or> 1 \<le> monthsSince today r)"
  shows "\<exists>m. \<bar>m - 10 * meanReviewTerm today rs\<bar> \<le> tieMargin (length rs)
           \<and> calculateScore binary64 today (this\<lparr>reviews := rs\<rparr>)
               = binary64 (of_int \<lfloor>m + 1 / 2\<rfloor> / 10)"
proof -
  define n where "n = real (length rs)"
  define tot where "tot = (\<Sum>r\<leftarrow>rs. reviewTerm today r)"
  have n: "1 \<le> n" using assms(1) by (cases rs) (simp_all add: n_def)
  from foldl_contribution_error [OF assms(3), of 0 0 "length rs" 0] assms(2)
  obtain A where
    A: "foldl (js_add binary64) (Fin 0) (map (contribution binary64 today) rs) = Fin A"
      "0 \<le> A" "A \<le> 10 * n" "\<bar>A - tot\<bar> \<le> n * ((68 + 10 * n) * unitRoundoff)"
    unfolding n_def tot_def by auto
  have "\<bar>A / n - tot / n\<bar> = \<bar>A - tot\<bar> / n"
    using n by (simp add: diff_divide_distrib [symmetric])
  also have "\<dots> \<le> n * ((68 + 10 * n) * unitRoundoff) / n"
    using A(4) n by (intro divide_right_mono) simp_all
  also have "\<dots> = (68 + 10 * n) * unitRoundoff" using n by simp
  finally have mean: "\<bar>A / n - tot / n\<bar> \<le> (68 + 10 * n) * unitRoundoff" .
  have "0 \<le> A / n" "A / n \<le> 10" using A(2,3) n by (simp_all add: field_simps)
  from binary64_error [OF this _ binary64_consts(5)] obtain M where
    M: "binary64 (A / n) = Fin M" "0 \<le> M" "M \<le> 10" "\<bar>M - A / n\<bar> \<le> 10 * unitRoundoff"
    by auto
  from M(2,3) have "0 \<le> M * 10" "M * 10 \<le> 100" by simp_all
  from binary64_error [OF this _ binary64_consts(6)] obtain T where
    T: "binary64 (M * 10) = Fin T" "\<bar>T - M * 10\<bar> \<le> 100 * unitRoundoff" by auto
  define p where "p = A / n"
  define q where "q = tot / n"
  define w where "w = n * unitRoundoff"
  have "\<bar>p - q\<bar> \<le> 68 * unitRoundoff + 10 * w"
    using mean by (simp add: p_def q_def w_def algebra_simps)
  moreover have "\<bar>M - p\<bar> \<le> 10 * unitRoundoff" using M(4) by (simp add: p_def)
  ultimately have "\<bar>T - 10 * q\<bar> \<le> 100 * w + 880 * unitRoundoff"
    using T(2) by linarith
  then have "\<bar>T - 10 * (tot / n)\<bar> \<le> (100 * n + 880) * unitRoundoff"
    by (simp add: q_def w_def algebra_simps)
  then have "\<bar>T - 10 * meanReviewTerm today rs\<bar> \<le> tieMargin (length rs)"
    by (simp add: meanReviewTerm_def tieMargin_def tot_def n_def)
  moreover have "calculateScore binary64 today (this\<lparr>reviews := rs\<rparr>)
      = binary64 (of_int \<lfloor>T + 1 / 2\<rfloor> / 10)"
    using assms(1) M(1) T(1) A(1) by (simp add: calculateScore_foldl Num_def n_def)
  ultimately show ?thesis by blast
qed

lemma floor_near:
  fixes x T :: real
  assumes "\<bar>T - x\<bar> \<le> d" "d < frac (x + 1 / 2)" "frac (x + 1 / 2) < 1 - d"
  shows "\<lfloor>T + 1 / 2\<rfloor> = \<lfloor>x + 1 / 2\<rfloor>"
proof (rule floor_unique)
  have "x + 1 / 2 = of_int \<lfloor>x + 1 / 2\<rfloor> + frac (x + 1 / 2)" by (simp add: frac_def)
  with assms show "of_int \<lfloor>x + 1 / 2\<rfloor> \<le> T + 1 / 2" "T + 1 / 2 < of_int \<lfloor>x + 1 / 2\<rfloor> + 1"
    by linarith+
qed

lemma foldl_js_add_NaN:
  "acc = NaN \<or> NaN \<in> set xs \<Longrightarrow> foldl (js_add rnd) acc xs = NaN"
proof (induction xs arbitrary: acc)
  case Nil
  then show ?case by simp
next
  case (Cons x xs)
  have "js_add rnd acc x = NaN \<or> NaN \<in> set xs"
    using Cons.prems by (cases acc; cases x) auto
  then show ?case by (simp add: Cons.IH)
qed

text \<open>
  C1, as stated, fails in the binary64 arithmetic the program runs on. The three reviews
  with 2, 3 and 1 stars of age 6, 1 and 3 have the mean term 3.55, which rounded to one
  decimal with a tie going up is 3.6. The sum computed from left to right is a little
  below the real one, ten times the computed mean is below 35.5, \<open>Math.round\<close> gives
  35 and the score is 3.5.
\<close>

theorem C1_binary64_counterexample:
  "stars review_2_6 = 2 \<and> monthsSince today_2026_11_03 review_2_6 = 6
   \<and> stars review_3_1 = 3 \<and> monthsSince today_2026_11_03 review_3_1 = 1
   \<and> stars review_1_3 = 1 \<and> monthsSince today_2026_11_03 review_1_3 = 3
   \<and> (spec_reviewScore 2 6 + spec_reviewScore 3 1 + spec_reviewScore 1 3) / 3 = 71 / 20
   \<and> spec_score today_2026_11_03 [review_2_6, review_3_1, review_1_3] = 18 / 5
   \<and> calculateScore binary64 today_2026_11_03
        (TrustScore_new\<lparr>reviews := [review_2_6, review_3_1, review_1_3]\<rparr>) = Fin (7 / 2)
   \<and> calculateScore binary64 today_2026_11_03
        (TrustScore_new\<lparr>reviews := [review_2_6, review_3_1, review_1_3]\<rparr>)
      \<noteq> binary64 (spec_score today_2026_11_03 [review_2_6, review_3_1, review_1_3])"
proof -
  have age: "monthsSince today_2026_11_03 review_2_6 = 6"
    "monthsSince today_2026_11_03 review_3_1 = 1"
    "monthsSince today_2026_11_03 review_1_3 = 3"
    by (simp_all add: monthsSince_def getMonthsSinceReviewDate_def today_2026_11_03_def
        review_2_6_def review_3_1_def review_1_3_def)
  have stars: "stars review_2_6 = 2" "stars review_3_1 = 3" "stars review_1_3 = 1"
    by (simp_all add: review_2_6_def review_3_1_def review_1_3_def)
  have mean: "(spec_reviewScore 2 6 + spec_reviewScore 3 1 + spec_reviewScore 1 3) / 3 = 71 / 20"
    by (simp add: spec_defs)
  have score: "spec_score today_2026_11_03 [review_2_6, review_3_1, review_1_3] = 18 / 5"
    by (simp add: spec_score_def spec_roundTenths_def spec_defs age stars)
  have "binary64 (18 / 5) = Fin (8106479329266893 / 2251799813685248)"
    using binary64_normal [of "- 51" "18 / 5"] by (simp add: pow2_def roundEven_def Let_def)
  then have "Fin (7 / 2) \<noteq> binary64 (18 / 5)" by simp
  then have "calculateScore binary64 today_2026_11_03
      (TrustScore_new\<lparr>reviews := [review_2_6, review_3_1, review_1_3]\<rparr>)
    \<noteq> binary64 (spec_score today_2026_11_03 [review_2_6, review_3_1, review_1_3])"
    unfolding score calculateScore_binary64_order_a .
  with age stars mean score calculateScore_binary64_order_a [of TrustScore_new] show ?thesis
    by blast
qed

text \<open>
  C1, amended. For a non-empty review sequence, with the term \<open>reviewTerm\<close> of a review
  (the specification's \<open>reviewScore\<close> for an age of at least 1, \<open>2 * stars\<close> for age
  0) and the mean \<open>meanReviewTerm\<close> of the terms:
  \<^item> without rounding, \<open>calculateScore\<close> returns the mean rounded to one decimal with a
    tie going up, if no review has age 0 and no stars; for reviews of age at least 1 this
    is the specification's score;
  \<^item> with binary64 rounding, for at most \<open>2^32\<close> reviews (the bound on the length of
    an array) with stars between 0 and 5 and an age of at most \<open>2^52\<close> months (the ages of
    \<open>Date\<close> objects are below \<open>2^23\<close>), none of them with age 0 and no stars,
    \<open>calculateScore\<close> returns the binary64 number nearest to \<open>\<lfloor>m + 1/2\<rfloor> / 10\<close> for a
    number \<open>m\<close> within \<open>tieMargin n = (100 * n + 880) / 2^53\<close> of ten times the mean;
    this is the binary64 number nearest to the mean rounded to one decimal with a tie
    going up, unless ten times the mean is within \<open>tieMargin n\<close> of a tie \<open>k + 1/2\<close>;
  \<^item> if a review has age 0 and no stars, the score is NaN.
\<close>

theorem C1_calculateScore:
  assumes "rs \<noteq> []"
  shows "((\<forall>r\<in>set rs. 0 < stars r \<or> 1 \<le> monthsSince today r)
         \<longrightarrow> calculateScore exact today (this\<lparr>reviews := rs\<rparr>)
             = Fin (spec_roundTenths (meanReviewTerm today rs)))
     \<and> ((\<forall>r\<in>set rs. 1 \<le> monthsSince today r)
         \<longrightarrow> spec_roundTenths (meanReviewTerm today rs) = spec_score today rs
             \<and> calculateScore exact today (this\<lparr>reviews := rs\<rparr>) = Fin (spec_score today rs))
     \<and> (length rs \<le> 2 ^ 32
          \<and> (\<forall>r\<in>set rs. 0 \<le> stars r \<and> stars r \<le> 5 \<and> binary64 (stars r) = Fin (stars r)
                \<and> monthsSince today r \<le> 2 ^ 52 \<and> (0 < stars r \<or> 1 \<le> monthsSince today r))
         \<longrightarrow> (\<exists>m. \<bar>m - 10 * meanReviewTerm today rs\<bar> \<le> tieMargin (length rs)
                \<and> calculateScore binary64 today (this\<lparr>reviews := rs\<rparr>)
                    = binary64 (of_int \<lfloor>m + 1 / 2\<rfloor> / 10))
             \<and> (tieMargin (length rs) < frac (10 * meanReviewTerm today rs + 1 / 2)
                  \<and> frac (10 * meanReviewTerm today rs + 1 / 2) < 1 - tieMargin (length rs)
                \<longrightarrow> calculateScore binary64 today (this\<lparr>reviews := rs\<rparr>)
                    = binary64 (spec_roundTenths (meanReviewTerm today rs))))
     \<and> ((rnd = exact \<or> rnd = binary64) \<and> (\<exists>r\<in>set rs. stars r = 0 \<and> monthsSince today r = 0)
         \<longrightarrow> calculateScore rnd today (this\<lparr>reviews := rs\<rparr>) = NaN)"
proof -
  have exact: "calculateScore exact today (this\<lparr>reviews := rs\<rparr>)
      = Fin (spec_roundTenths (meanReviewTerm today rs))"
    if "\<forall>r\<in>set rs. 0 < stars r \<or> 1 \<le> monthsSince today r"
  proof -
    from that have "map (contribution exact today) rs = map Fin (map (reviewTerm today) rs)"
      by (simp add: exact_contribution)
    then have "foldl (js_add exact) (Fin 0) (map (contribution exact today) rs)
        = Fin (0 + sum_list (map (reviewTerm today) rs))"
      by (simp only: foldl_exact_Fin)
    then show ?thesis
      using assms
      by (simp add: calculateScore_foldl Num_def exact_def spec_roundTenths_def
          meanReviewTerm_def)
  qed
  have aged: "spec_roundTenths (meanReviewTerm today rs) = spec_score today rs
      \<and> calculateScore exact today (this\<lparr>reviews := rs\<rparr>) = Fin (spec_score today rs)"
    if ages: "\<forall>r\<in>set rs. 1 \<le> monthsSince today r"
  proof -
    from ages have eq: "map (reviewTerm today) rs
        = map (\<lambda>r. spec_reviewScore (stars r) (of_int (monthsSince today r))) rs"
      by (intro map_cong [OF refl]) (auto simp: reviewTerm_def)
    have score: "spec_roundTenths (meanReviewTerm today rs) = spec_score today rs"
      unfolding meanReviewTerm_def spec_score_def eq ..
    from ages have "\<forall>r\<in>set rs. 0 < stars r \<or> 1 \<le> monthsSince today r" by blast
    from exact [OF this] score show ?thesis by simp
  qed
  have rounded: "(\<exists>m. \<bar>m - 10 * meanReviewTerm today rs\<bar> \<le> tieMargin (length rs)
        \<and> calculateScore binary64 today (this\<lparr>reviews := rs\<rparr>)
            = binary64 (of_int \<lfloor>m + 1 / 2\<rfloor> / 10))
      \<and> (tieMargin (length rs) < frac (10 * meanReviewTerm today rs + 1 / 2)
            \<and> frac (10 * meanReviewTerm today rs + 1 / 2) < 1 - tieMargin (length rs)
          \<longrightarrow> calculateScore binary64 today (this\<lparr>reviews := rs\<rparr>)
              = binary64 (spec_roundTenths (meanReviewTerm today rs)))"
    if h: "length rs \<le> 2 ^ 32
       \<and> (\<forall>r\<in>set rs. 0 \<le> stars r \<and> stars r \<le> 5 \<and> binary64 (stars r) = Fin (stars r)
             \<and> monthsSince today r \<le> 2 ^ 52 \<and> (0 < stars r \<or> 1 \<le> monthsSince today r))"
  proof -
    from h have len: "length rs \<le> 2 ^ 32"
      and ok: "\<forall>r\<in>set rs. 0 \<le> stars r \<and> stars r \<le> 5 \<and> binary64 (stars r) = Fin (stars r)
             \<and> monthsSince today r \<le> 2 ^ 52 \<and> (0 < stars r \<or> 1 \<le> monthsSince today r)"
      by blast+
    from calculateScore_binary64_error [OF assms len ok, of this] obtain m where
      m: "\<bar>m - 10 * meanReviewTerm today rs\<bar> \<le> tieMargin (length rs)"
        "calculateScore binary64 today (this\<lparr>reviews := rs\<rparr>)
           = binary64 (of_int \<lfloor>m + 1 / 2\<rfloor> / 10)" by blast
    have "calculateScore binary64 today (this\<lparr>reviews := rs\<rparr>)
        = binary64 (spec_roundTenths (meanReviewTerm today rs))"
      if far: "tieMargin (length rs) < frac (10 * meanReviewTerm today rs + 1 / 2)"
        "frac (10 * meanReviewTerm today rs + 1 / 2) < 1 - tieMargin (length rs)"
    proof -
      from floor_near [OF m(1) far]
      have "\<lfloor>m + 1 / 2\<rfloor> = \<lfloor>meanReviewTerm today rs * 10 + 1 / 2\<rfloor>"
        by (simp add: mult.commute)
      with m(2) show ?thesis by (simp add: spec_roundTenths_def)
    qed
    with m show ?thesis by blast
  qed
  have nan: "calculateScore rnd today (this\<lparr>reviews := rs\<rparr>) = NaN"
    if h: "(rnd = exact \<or> rnd = binary64) \<and> (\<exists>r\<in>set rs. stars r = 0 \<and> monthsSince today r = 0)"
  proof -
    from h obtain r where rnd: "rnd = exact \<or> rnd = binary64"
      and r: "r \<in> set rs" "stars r = 0" "monthsSince today r = 0" by blast
    from NaN_contribution [OF rnd r(2,3)] r(1)
    have "NaN \<in> set (map (contribution rnd today) rs)" by force
    then have "foldl (js_add rnd) (Fin 0) (map (contribution rnd today) rs) = NaN"
      by (intro foldl_js_add_NaN) simp
    then show ?thesis by (simp add: calculateScore_foldl)
  qed
  show ?thesis
  proof (intro conjI)
    show "(\<forall>r\<in>set rs. 0 < stars r \<or> 1 \<le> monthsSince today r)
       \<longrightarrow> calculateScore exact today (this\<lparr>reviews := rs\<rparr>)
           = Fin (spec_roundTenths (meanReviewTerm today rs))"
      by (rule impI) (rule exact)
    show "(\<forall>r\<in>set rs. 1 \<le> monthsSince today r)
       \<longrightarrow> spec_roundTenths (meanReviewTerm today rs) = spec_score today rs
           \<and> calculateScore exact today (this\<lparr>reviews := rs\<rparr>) = Fin (spec_score today rs)"
      by (rule impI) (rule aged)
    show "length rs \<le> 2 ^ 32
        \<and> (\<forall>r\<in>set rs. 0 \<le> stars r \<and> stars r \<le> 5 \<and> binary64 (stars r) = Fin (stars r)
              \<and> monthsSince today r \<le> 2 ^ 52 \<and> (0 < stars r \<or> 1 \<le> monthsSince today r))
       \<longrightarrow> (\<exists>m. \<bar>m - 10 * meanReviewTerm today rs\<bar> \<le> tieMargin (length rs)
              \<and> calculateScore binary64 today (this\<lparr>reviews := rs\<rparr>)
                  = binary64 (of_int \<lfloor>m + 1 / 2\<rfloor> / 10))
           \<and> (tieMargin (length rs) < frac (10 * meanReviewTerm today rs + 1 / 2)
                \<and> frac (10 * meanReviewTerm today rs + 1 / 2) < 1 - tieMargin (length rs)
              \<longrightarrow> calculateScore binary64 today (this\<lparr>reviews := rs\<rparr>)
                  = binary64 (spec_roundTenths (meanReviewTerm today rs)))"
      by (rule impI) (rule rounded)
    show "(rnd = exact \<or> rnd = binary64) \<and> (\<exists>r\<in>set rs. stars r = 0 \<and> monthsSince today r = 0)
       \<longrightarrow> calculateScore rnd today (this\<lparr>reviews := rs\<rparr>) = NaN"
      by (rule impI) (rule nan)
  qed
qed

theorem C1_calculateScore_witness:
  "calculateScore exact today_2026_11_03
      (TrustScore_new\<lparr>reviews := [review_5_0, review_3_72]\<rparr>) = Fin 6
   \<and> calculateScore binary64 today_2026_11_03
      (TrustScore_new\<lparr>reviews := [review_5_0, review_3_72]\<rparr>) = Fin 6
   \<and> calculateScore exact today_2026_11_03
      (TrustScore_new\<lparr>reviews := [review_4_36, review_3_72]\<rparr>)
     = Fin (spec_score today_2026_11_03 [review_4_36, review_3_72])
   \<and> spec_score today_2026_11_03 [review_4_36, review_3_72] = 19 / 5
   \<and> calculateScore binary64 today_2026_11_03
      (TrustScore_new\<lparr>reviews := [review_5_0, review_0_0]\<rparr>) = NaN"
proof -
  have age: "monthsSince today_2026_11_03 review_5_0 = 0"
      "monthsSince today_2026_11_03 review_0_0 = 0"
      "monthsSince today_2026_11_03 review_4_36 = 36"
      "monthsSince today_2026_11_03 review_3_72 = 72"
    by (simp_all add: monthsSince_def getMonthsSinceReviewDate_def today_2026_11_03_def
        review_5_0_def review_0_0_def review_4_36_def review_3_72_def)
  have stars: "stars review_5_0 = 5" "stars review_0_0 = 0" "stars review_4_36 = 4"
      "stars review_3_72 = 3"
    by (simp_all add: review_5_0_def review_0_0_def review_4_36_def review_3_72_def)
  have b: "binary64 5 = Fin 5" "binary64 3 = Fin 3" "binary64 6 = Fin 6"
    using binary64_int [of 5] binary64_int [of 3] binary64_int [of 6] by simp_all
  have mean: "meanReviewTerm today_2026_11_03 [review_5_0, review_3_72] = 765 / 128"
    by (simp add: meanReviewTerm_def reviewTerm_def spec_defs age stars)
  have tenths: "spec_roundTenths (765 / 128) = 6"
    by (simp add: spec_roundTenths_def)
  have far: "tieMargin (length [review_5_0, review_3_72]) < frac (10 * (765 / 128) + 1 / 2)"
      "frac (10 * (765 / 128) + 1 / 2) < 1 - tieMargin (length [review_5_0, review_3_72])"
    by (simp_all add: tieMargin_def unitRoundoff_def frac_def)
  have score: "spec_score today_2026_11_03 [review_4_36, review_3_72] = 19 / 5"
    by (simp add: spec_score_def spec_roundTenths_def spec_defs age stars)
  have ne: "[review_5_0, review_3_72] \<noteq> []" "[review_4_36, review_3_72] \<noteq> []"
    "[review_5_0, review_0_0] \<noteq> []" by simp_all
  from C1_calculateScore [OF ne(1), where today = today_2026_11_03 and this = TrustScore_new]
  have "calculateScore exact today_2026_11_03
      (TrustScore_new\<lparr>reviews := [review_5_0, review_3_72]\<rparr>) = Fin 6"
    "calculateScore binary64 today_2026_11_03
      (TrustScore_new\<lparr>reviews := [review_5_0, review_3_72]\<rparr>) = Fin 6"
    using far by (simp_all add: age stars mean tenths b)
  moreover from C1_calculateScore [OF ne(2), where today = today_2026_11_03
      and this = TrustScore_new]
  have "calculateScore exact today_2026_11_03
      (TrustScore_new\<lparr>reviews := [review_4_36, review_3_72]\<rparr>)
     = Fin (spec_score today_2026_11_03 [review_4_36, review_3_72])"
    by (simp add: age)
  moreover from C1_calculateScore [OF ne(3), where today = today_2026_11_03
      and this = TrustScore_new and rnd = binary64]
  have "calculateScore binary64 today_2026_11_03
      (TrustScore_new\<lparr>reviews := [review_5_0, review_0_0]\<rparr>) = NaN"
    by (simp add: age stars)
  ultimately show ?thesis using score by blast
qed

section \<open>The order of the reviews\<close>

text \<open>
  C8, as stated, fails: the sum is taken from left to right in binary64 arithmetic, whose
  addition is not associative, and the last bits of the sum decide a tie of
  \<open>Math.round\<close>. The three reviews with 2, 3 and 1 stars of age 6, 1 and 3 have the
  exact mean 3.55. In the order (2, 3, 1) the computed score is 3.5, in the order
  (1, 2, 3) it is 3.6.
\<close>

theorem C8_order_counterexample:
  "mset [review_2_6, review_3_1, review_1_3] = mset [review_1_3, review_2_6, review_3_1]
   \<and> calculateScore binary64 today_2026_11_03
        (TrustScore_new\<lparr>reviews := [review_2_6, review_3_1, review_1_3]\<rparr>) = Fin (7 / 2)
   \<and> calculateScore binary64 today_2026_11_03
        (TrustScore_new\<lparr>reviews := [review_1_3, review_2_6, review_3_1]\<rparr>)
      = Fin (8106479329266893 / 2251799813685248)
   \<and> calculateScore binary64 today_2026_11_03
        (TrustScore_new\<lparr>reviews := [review_2_6, review_3_1, review_1_3]\<rparr>)
      \<noteq> calculateScore binary64 today_2026_11_03
        (TrustScore_new\<lparr>reviews := [review_1_3, review_2_6, review_3_1]\<rparr>)"
  by (simp add: calculateScore_binary64_order_a calculateScore_binary64_order_b)

lemma js_add_exact_right_commute:
  "js_add exact (js_add exact a x) y = js_add exact (js_add exact a y) x"
  by (cases a; cases x; cases y) (simp_all add: exact_def)

lemma js_add_commute: "js_add rnd u v = js_add rnd v u"
  by (cases u; cases v) (simp_all add: add.commute)

lemma js_add_zero_binary64:
  "js_add binary64 (Fin 0) (js_add binary64 u v) = js_add binary64 u v"
proof (cases "js_add binary64 u v")
  case (Fin y)
  then obtain x where "binary64 x = Fin y"
    by (cases u; cases v) (auto split: if_splits)
  then have "binary64 y = Fin y" by (rule binary64_idem)
  with Fin show ?thesis by simp
qed simp_all

lemma contribution_is_sum:
  "\<exists>u v. contribution rnd today r = js_add rnd u v"
  by (auto simp: contribution_def reviewScore_def Let_def)

text \<open>
  C8, amended: without rounding, the score is the same for every permutation of the
  review sequence; with binary64 rounding it is the same for the two orders of two
  reviews (and can differ from three reviews on, as above).
\<close>

theorem C8_order_invariant:
  "(mset rs = mset rs' \<longrightarrow>
      calculateScore exact today (this\<lparr>reviews := rs\<rparr>) =
      calculateScore exact today (this\<lparr>reviews := rs'\<rparr>))
   \<and> calculateScore binary64 today (this\<lparr>reviews := [r1, r2]\<rparr>) =
     calculateScore binary64 today (this\<lparr>reviews := [r2, r1]\<rparr>)"
proof (intro conjI impI)
  assume perm: "mset rs = mset rs'"
  let ?f = "\<lambda>x a. js_add exact a x"
  have m: "mset (map (contribution exact today) rs) = mset (map (contribution exact today) rs')"
    using perm by (metis mset_map)
  have "fold ?f (map (contribution exact today) rs) = fold ?f (map (contribution exact today) rs')"
    by (rule fold_multiset_equiv [OF _ m]) (simp add: fun_eq_iff js_add_exact_right_commute)
  then have "foldl (js_add exact) (Fin 0) (map (contribution exact today) rs) =
      foldl (js_add exact) (Fin 0) (map (contribution exact today) rs')"
    by (simp add: foldl_conv_fold)
  moreover have "length rs = length rs'" using perm by (rule mset_eq_length)
  ultimately show "calculateScore exact today (this\<lparr>reviews := rs\<rparr>) =
      calculateScore exact today (this\<lparr>reviews := rs'\<rparr>)"
    by (simp add: calculateScore_foldl)
next
  obtain u1 v1 u2 v2 where c: "contribution binary64 today r1 = js_add binary64 u1 v1"
      "contribution binary64 today r2 = js_add binary64 u2 v2"
    using contribution_is_sum [of binary64 today r1] contribution_is_sum [of binary64 today r2]
    by blast
  have "js_add binary64 (js_add binary64 (Fin 0) (contribution binary64 today r1))
          (contribution binary64 today r2)
      = js_add binary64 (js_add binary64 (Fin 0) (contribution binary64 today r2))
          (contribution binary64 today r1)"
    unfolding c js_add_zero_binary64 by (rule js_add_commute)
  then show "calculateScore binary64 today (this\<lparr>reviews := [r1, r2]\<rparr>) =
     calculateScore binary64 today (this\<lparr>reviews := [r2, r1]\<rparr>)"
    by (simp add: calculateScore_foldl)
qed

theorem C8_order_invariant_witness:
  "calculateScore exact today_2026_11_03
        (TrustScore_new\<lparr>reviews := [review_2_6, review_3_1, review_1_3]\<rparr>)
     = calculateScore exact today_2026_11_03
        (TrustScore_new\<lparr>reviews := [review_1_3, review_2_6, review_3_1]\<rparr>)"
  using C8_order_invariant [of "[review_2_6, review_3_1, review_1_3]"
      "[review_1_3, review_2_6, review_3_1]" today_2026_11_03 TrustScore_new]
  by simp

end
